(* ===== verification/Prelude.thy ===== *)
theory Prelude
  imports Complex_Main
begin

text \<open>
  Shared vocabulary of the development: the named collections of evaluation and invariant
  rules that the component theories extend, and generic lemmas on lists and options that the
  models of \<open>src/www/app.js\<close> use (a search-and-modify of the first matching list element,
  filtering by a key, sums over mapped lists).
\<close>

named_theorems js_eval "equations that evaluate the JavaScript value model on literals"
named_theorems inv_rules "preservation rules of the collection invariants"

subsection \<open>Modifying the first element that satisfies a predicate\<close>

text \<open>
  JavaScript's \<open>xs.find(p)\<close> returns a reference to the first element satisfying \<open>p\<close>;
  assigning to its fields mutates that element inside the array. With no other alias of the
  element, this is the list with its first matching element replaced.
\<close>

fun modify_first :: "('a \<Rightarrow> bool) \<Rightarrow> ('a \<Rightarrow> 'a) \<Rightarrow> 'a list \<Rightarrow> 'a list" where
  "modify_first P f [] = []"
| "modify_first P f (x # xs) = (if P x then f x # xs else x # modify_first P f xs)"

lemma length_modify_first [simp]: "length (modify_first P f xs) = length xs"
  by (induction xs) auto

lemma modify_first_no_match [simp]: "\<not> (\<exists>x \<in> set xs. P x) \<Longrightarrow> modify_first P f xs = xs"
  by (induction xs) auto

lemma map_modify_first:
  "(\<And>x. P x \<Longrightarrow> g (f x) = g x) \<Longrightarrow> map g (modify_first P f xs) = map g xs"
  by (induction xs) auto

lemma set_modify_first_subset:
  "set (modify_first P f xs) \<subseteq> set xs \<union> f ` {x \<in> set xs. P x}"
  by (induction xs) auto

lemma modify_first_split:
  "modify_first P f xs =
     (case List.find P xs of None \<Rightarrow> xs
      | Some x \<Rightarrow> takeWhile (Not \<circ> P) xs @ f x # tl (dropWhile (Not \<circ> P) xs))"
  by (induction xs) (auto split: option.splits)

text \<open>With distinct keys, modifying the first element with key \<open>v\<close> modifies every such element.\<close>

lemma modify_first_distinct_key:
  "distinct (map k xs) \<Longrightarrow>
   modify_first (\<lambda>x. k x = v) f xs = map (\<lambda>x. if k x = v then f x else x) xs"
proof (induction xs)
  case Nil
  then show ?case by simp
next
  case (Cons x xs)
  show ?case
  proof (cases "k x = v")
    case True
    with Cons.prems have "\<forall>y \<in> set xs. k y \<noteq> v" by (auto simp: image_iff)
    then have "map (\<lambda>x. if k x = v then f x else x) xs = xs" by (induction xs) auto
    with True show ?thesis by simp
  next
    case False
    with Cons show ?thesis by simp
  qed
qed

subsection \<open>Filtering by a key\<close>

lemma length_filter_key_distinct:
  "distinct (map k xs) \<Longrightarrow> x \<in> set xs \<Longrightarrow> length (filter (\<lambda>y. k y \<noteq> k x) xs) = length xs - 1"
proof (induction xs)
  case Nil
  then show ?case by simp
next
  case (Cons y ys)
  show ?case
  proof (cases "k y = k x")
    case True
    with Cons.prems have "\<forall>z \<in> set ys. k z \<noteq> k x" by (auto simp: image_iff)
    with True show ?thesis by simp
  next
    case False
    with Cons.prems have "x \<in> set ys" by auto
    with Cons False show ?thesis by (cases ys) auto
  qed
qed

lemma set_filter_key_distinct:
  "distinct (map k xs) \<Longrightarrow> x \<in> set xs \<Longrightarrow> set (filter (\<lambda>y. k y \<noteq> k x) xs) = set xs - {x}"
  by (auto simp: distinct_map inj_on_def)

lemma find_key_nth:
  "distinct (map f xs) \<Longrightarrow> i < length xs \<Longrightarrow> List.find (\<lambda>x. f x = f (xs ! i)) xs = Some (xs ! i)"
proof (induction xs arbitrary: i)
  case Nil then show ?case by simp
next
  case (Cons y ys)
  show ?case
  proof (cases i)
    case 0 then show ?thesis by simp
  next
    case (Suc j)
    with Cons.prems have "ys ! j \<in> set ys" by simp
    with Cons.prems have "f y \<noteq> f (ys ! j)" by (auto dest: imageI [where f = f])
    with Cons Suc show ?thesis by simp
  qed
qed

lemma filter_key_nth:
  "distinct (map f xs) \<Longrightarrow> i < length xs \<Longrightarrow> filter (\<lambda>x. f x \<noteq> f (xs ! i)) xs = take i xs @ drop (Suc i) xs"
proof (induction xs arbitrary: i)
  case Nil then show ?case by simp
next
  case (Cons y ys)
  show ?case
  proof (cases i)
    case 0
    from Cons.prems have "\<forall>x\<in>set ys. f x \<noteq> f y" by (auto simp: image_iff)
    with 0 show ?thesis by simp
  next
    case (Suc j)
    with Cons.prems have "ys ! j \<in> set ys" by simp
    with Cons.prems have "f y \<noteq> f (ys ! j)" by (auto dest: imageI [where f = f])
    with Cons Suc show ?thesis by simp
  qed
qed

subsection \<open>Scanning upwards for the last index that satisfies a test\<close>

text \<open>
  \<open>scan_up P hi k\<close> steps from \<open>k\<close> to \<open>k + 1\<close> while \<open>k < hi\<close> and the next index
  passes \<open>P\<close>. The calendar getters use it to find the largest year or month whose start
  lies at or before a given day, as ECMAScript defines them.
\<close>

function scan_up :: "(nat \<Rightarrow> bool) \<Rightarrow> nat \<Rightarrow> nat \<Rightarrow> nat" where
  "scan_up P hi k = (if k < hi \<and> P (Suc k) then scan_up P hi (Suc k) else k)"
  by pat_completeness auto
termination
  by (relation "measure (\<lambda>(P, hi, k). hi - k)") auto

declare scan_up.simps [simp del]

lemma scan_up_spec:
  "k \<le> hi \<Longrightarrow> P k \<Longrightarrow>
   k \<le> scan_up P hi k \<and> scan_up P hi k \<le> hi \<and> P (scan_up P hi k) \<and>
   (scan_up P hi k < hi \<longrightarrow> \<not> P (Suc (scan_up P hi k)))"
proof (induction P hi k rule: scan_up.induct)
  case (1 P hi k)
  show ?case
  proof (cases "k < hi \<and> P (Suc k)")
    case True
    with "1.IH" have "Suc k \<le> scan_up P hi (Suc k) \<and> scan_up P hi (Suc k) \<le> hi \<and>
        P (scan_up P hi (Suc k)) \<and>
        (scan_up P hi (Suc k) < hi \<longrightarrow> \<not> P (Suc (scan_up P hi (Suc k))))"
      by simp
    with True show ?thesis by (simp add: scan_up.simps [of P hi k])
  next
    case False
    with "1.prems" show ?thesis by (auto simp: scan_up.simps [of P hi k])
  qed
qed

lemma scan_up_unique:
  "k \<le> j \<Longrightarrow> j \<le> hi \<Longrightarrow> (\<forall>i. k < i \<and> i \<le> j \<longrightarrow> P i) \<Longrightarrow> (j < hi \<longrightarrow> \<not> P (Suc j)) \<Longrightarrow>
   scan_up P hi k = j"
proof (induction P hi k rule: scan_up.induct)
  case (1 P hi k)
  show ?case
  proof (cases "k = j")
    case True
    with "1.prems" show ?thesis by (subst scan_up.simps) auto
  next
    case False
    with "1.prems" have "k < hi \<and> P (Suc k)" by auto
    with "1.IH" "1.prems" False show ?thesis by (simp add: scan_up.simps [of P hi k])
  qed
qed

subsection \<open>Splitting a list at separators\<close>

text \<open>\<open>s.split(re)\<close> with a one-character separator class: every separator ends a piece,
  empty pieces are kept, and the empty string gives one empty piece.\<close>

fun split_on :: "('a \<Rightarrow> bool) \<Rightarrow> 'a list \<Rightarrow> 'a list list" where
  "split_on P [] = [[]]"
| "split_on P (x # xs) = (if P x then [] # split_on P xs
                          else (x # hd (split_on P xs)) # tl (split_on P xs))"

lemma split_on_nonempty [simp]: "split_on P xs \<noteq> []"
  by (induction xs) auto

lemma split_on_no_sep: "\<forall>x \<in> set xs. \<not> P x \<Longrightarrow> split_on P xs = [xs]"
  by (induction xs) auto

lemma split_on_append_sep:
  "\<forall>x \<in> set xs. \<not> P x \<Longrightarrow> P s \<Longrightarrow> split_on P (xs @ s # ys) = xs # split_on P ys"
  by (induction xs) auto

subsection \<open>Joining with a separator\<close>

text \<open>\<open>xs.join(sep)\<close> on a list of strings.\<close>

fun join_with :: "'a list \<Rightarrow> 'a list list \<Rightarrow> 'a list" where
  "join_with sep [] = []"
| "join_with sep [x] = x"
| "join_with sep (x # y # zs) = x @ sep @ join_with sep (y # zs)"

subsection \<open>Association lists keyed by a field\<close>

lemma map_of_filter_key:
  "map_of (map (\<lambda>x. (k x, v x)) (filter (\<lambda>x. k x \<noteq> a) xs)) = (map_of (map (\<lambda>x. (k x, v x)) xs))(a := None)"
  by (induction xs) (auto simp: fun_upd_twist)

lemma map_of_update_key_at:
  assumes "\<And>x. k (f x) = k x" and "\<And>x. k x = a \<Longrightarrow> v (f x) = w"
  shows "map_of (map ((\<lambda>x. (k x, v x)) \<circ> (\<lambda>x. if k x = a then f x else x)) xs) j =
         (if j = a then (if a \<in> k ` set xs then Some w else None) else map_of (map (\<lambda>x. (k x, v x)) xs) j)"
  by (induction xs) (auto simp: assms)

lemma map_of_update_key:
  assumes "\<And>x. k (f x) = k x" and "\<And>x. k x = a \<Longrightarrow> v (f x) = w" and "a \<in> k ` set xs"
  shows "map_of (map ((\<lambda>x. (k x, v x)) \<circ> (\<lambda>x. if k x = a then f x else x)) xs) =
         (map_of (map (\<lambda>x. (k x, v x)) xs))(a \<mapsto> w)"
proof (rule ext)
  fix j
  show "map_of (map ((\<lambda>x. (k x, v x)) \<circ> (\<lambda>x. if k x = a then f x else x)) xs) j =
        ((map_of (map (\<lambda>x. (k x, v x)) xs))(a \<mapsto> w)) j"
    using map_of_update_key_at [of k f a v w xs j] assms by simp
qed

end
