(* ===== verification/JsValue.thy ===== *)
theory JsValue
  imports Prelude
begin

text \<open>
  The JavaScript built-ins that \<open>src/www/app.js\<close> applies to user input: the Number
  values it computes with (\<open>NaN\<close>, finite values, the two infinities), the \<open>||\<close>
  coercion \<open>x || 0\<close>, \<open>String.prototype.trim\<close>, \<open>parseInt(s, 10)\<close>, \<open>String(n)\<close> of
  an integer and \<open>padStart\<close>. These are not code of the repository; they are modelled
  from the ECMAScript specification. Finite Numbers are exact rationals: rounding to
  binary64 is not modelled, which is exact for the integers and short decimals the tracker
  stores. Strings are byte strings (\<open>char list\<close>): the whitespace set is the ASCII part of
  ECMAScript's \<open>StrWhiteSpaceChar\<close>.
\<close>

section \<open>Number values\<close>

datatype jsnum = NaN | Fin rat | Inf bool

text \<open>\<open>a + b\<close> on Numbers (\<open>Number::add\<close>): \<open>Inf True\<close> is \<open>+\<infinity>\<close>.\<close>

fun js_add :: "jsnum \<Rightarrow> jsnum \<Rightarrow> jsnum" where
  "js_add (Fin a) (Fin b) = Fin (a + b)"
| "js_add (Fin a) (Inf s) = Inf s"
| "js_add (Inf s) (Fin b) = Inf s"
| "js_add (Inf s) (Inf t) = (if s = t then Inf s else NaN)"
| "js_add NaN y = NaN"
| "js_add x NaN = NaN"

text \<open>ToBoolean on a Number: \<open>NaN\<close>, \<open>+0\<close> and \<open>-0\<close> are falsy.\<close>

fun js_truthy :: "jsnum \<Rightarrow> bool" where
  "js_truthy NaN = False"
| "js_truthy (Fin q) = (q \<noteq> 0)"
| "js_truthy (Inf s) = True"

text \<open>\<open>x || 0\<close>: the left operand when it is truthy, else \<open>0\<close>.\<close>

definition or_zero :: "jsnum \<Rightarrow> jsnum" where
  "or_zero x = (if js_truthy x then x else Fin 0)"

fun js_neg :: "jsnum \<Rightarrow> jsnum" where
  "js_neg NaN = NaN"
| "js_neg (Fin q) = Fin (- q)"
| "js_neg (Inf s) = Inf (\<not> s)"

text \<open>The rational value of a finite Number, \<open>0\<close> otherwise.\<close>

fun num_val :: "jsnum \<Rightarrow> rat" where
  "num_val (Fin q) = q"
| "num_val NaN = 0"
| "num_val (Inf s) = 0"

fun is_inf :: "jsnum \<Rightarrow> bool" where
  "is_inf (Inf s) = True"
| "is_inf NaN = False"
| "is_inf (Fin q) = False"

section \<open>Characters and digits\<close>

definition js_ws :: "char \<Rightarrow> bool" where
  "js_ws c \<longleftrightarrow> of_char c \<in> {9, 10, 11, 12, 13, 32 :: nat}"

definition js_trim :: "string \<Rightarrow> string" where
  "js_trim s = rev (dropWhile js_ws (rev (dropWhile js_ws s)))"

definition is_digit :: "char \<Rightarrow> bool" where
  "is_digit c \<longleftrightarrow> 48 \<le> (of_char c :: nat) \<and> (of_char c :: nat) \<le> 57"

definition digit_val :: "char \<Rightarrow> nat" where
  "digit_val c = of_char c - 48"

definition digit_char :: "nat \<Rightarrow> char" where
  "digit_char d = char_of (48 + d)"

definition digits_nat :: "string \<Rightarrow> nat" where
  "digits_nat ds = foldl (\<lambda>n c. 10 * n + digit_val c) 0 ds"

text \<open>Decimal digits of a natural number, most significant first (\<open>String(n)\<close>).\<close>

fun nat_digits :: "nat \<Rightarrow> string" where
  "nat_digits n = (if n < 10 then [digit_char n] else nat_digits (n div 10) @ [digit_char (n mod 10)])"

declare nat_digits.simps [simp del]

definition int_str :: "int \<Rightarrow> string" where
  "int_str i = (if i < 0 then CHR ''-'' # nat_digits (nat (- i)) else nat_digits (nat i))"

text \<open>\<open>s.padStart(n, c)\<close> with a one-character pad string.\<close>

definition pad_start :: "nat \<Rightarrow> char \<Rightarrow> string \<Rightarrow> string" where
  "pad_start n c s = replicate (n - length s) c @ s"

section \<open>\<open>parseInt(s, 10)\<close>\<close>

text \<open>
  Leading white space is skipped, an optional sign is read, then the longest prefix of
  decimal digits; with no digit the result is \<open>NaN\<close> (here \<open>None\<close>). Trailing characters
  are ignored.
\<close>

definition parseInt10 :: "string \<Rightarrow> int option" where
  "parseInt10 s =
     (let t = dropWhile js_ws s;
          (sg, u) = (case t of c # r \<Rightarrow> (if c = CHR ''-'' then (-1, r)
                                         else if c = CHR ''+'' then (1, r) else (1, t))
                     | [] \<Rightarrow> (1, t));
          ds = takeWhile is_digit u
      in if ds = [] then None else Some (sg * int (digits_nat ds)))"

section \<open>\<open>Number(s)\<close> on a string\<close>

text \<open>
  ECMAScript's StringToNumber: white space around the literal is trimmed and the empty
  string is \<open>0\<close>; then either a non-decimal integer literal (\<open>0x\<close>, \<open>0o\<close>,
  \<open>0b\<close>, no sign) or a decimal literal with an optional sign: \<open>Infinity\<close>, or digits
  with an optional fraction and an optional exponent. Anything else is \<open>NaN\<close>.
\<close>

definition radix_digit :: "nat \<Rightarrow> char \<Rightarrow> nat option" where
  "radix_digit r c =
     (let k = (of_char c :: nat);
          v = (if 48 \<le> k \<and> k \<le> 57 then k - 48
               else if 97 \<le> k \<and> k \<le> 122 then k - 87
               else if 65 \<le> k \<and> k \<le> 90 then k - 55 else r)
      in if v < r then Some v else None)"

fun radix_val :: "nat \<Rightarrow> nat \<Rightarrow> string \<Rightarrow> nat option" where
  "radix_val r acc [] = Some acc"
| "radix_val r acc (c # cs) =
     (case radix_digit r c of None \<Rightarrow> None | Some v \<Rightarrow> radix_val r (r * acc + v) cs)"

definition non_decimal_literal :: "string \<Rightarrow> nat option" where
  "non_decimal_literal t =
     (case t of
        c0 # c1 # ds \<Rightarrow>
          (if c0 = CHR ''0'' \<and> ds \<noteq> [] then
             (if c1 = CHR ''x'' \<or> c1 = CHR ''X'' then radix_val 16 0 ds
              else if c1 = CHR ''o'' \<or> c1 = CHR ''O'' then radix_val 8 0 ds
              else if c1 = CHR ''b'' \<or> c1 = CHR ''B'' then radix_val 2 0 ds
              else None)
           else None)
      | _ \<Rightarrow> None)"

definition scale10 :: "int \<Rightarrow> rat" where
  "scale10 e = (if 0 \<le> e then 10 ^ nat e else 1 / 10 ^ nat (- e))"

definition exponent_part :: "string \<Rightarrow> int option" where
  "exponent_part ex =
     (let (sg, ds) = (case ex of c # r \<Rightarrow> (if c = CHR ''+'' then (1, r)
                                          else if c = CHR ''-'' then (-1, r) else (1, ex))
                      | [] \<Rightarrow> (1, ex))
      in if ds \<noteq> [] \<and> list_all is_digit ds then Some (sg * int (digits_nat ds)) else None)"

definition is_exp_mark :: "char \<Rightarrow> bool" where
  "is_exp_mark c \<longleftrightarrow> c = CHR ''e'' \<or> c = CHR ''E''"

definition unsigned_decimal :: "string \<Rightarrow> rat option" where
  "unsigned_decimal u =
     (let m = takeWhile (Not \<circ> is_exp_mark) u;
          ex = (case dropWhile (Not \<circ> is_exp_mark) u of [] \<Rightarrow> Some 0 | _ # r \<Rightarrow> exponent_part r);
          ip = takeWhile (\<lambda>c. c \<noteq> CHR ''.'') m;
          fp = drop 1 (dropWhile (\<lambda>c. c \<noteq> CHR ''.'') m)
      in if (ip = [] \<and> fp = []) \<or> \<not> list_all is_digit ip \<or> \<not> list_all is_digit fp then None
         else map_option (\<lambda>e. of_nat (digits_nat (ip @ fp)) * scale10 (e - int (length fp))) ex)"

definition unsigned_number :: "string \<Rightarrow> jsnum option" where
  "unsigned_number u = (if u = ''Infinity'' then Some (Inf True) else map_option Fin (unsigned_decimal u))"

definition decimal_literal :: "string \<Rightarrow> jsnum option" where
  "decimal_literal t =
     (case t of
        c # u \<Rightarrow> (if c = CHR ''+'' then unsigned_number u
                  else if c = CHR ''-'' then map_option js_neg (unsigned_number u)
                  else unsigned_number t)
      | [] \<Rightarrow> None)"

definition js_Number :: "string \<Rightarrow> jsnum" where
  "js_Number s =
     (let t = js_trim s
      in if t = [] then Fin 0
         else case non_decimal_literal t of
                Some n \<Rightarrow> Fin (of_nat n)
              | None \<Rightarrow> (case decimal_literal t of Some v \<Rightarrow> v | None \<Rightarrow> NaN))"

section \<open>Lemmas\<close>

declare js_add.simps [js_eval] js_truthy.simps [js_eval] js_neg.simps [js_eval]

lemma or_zero_simps [simp, js_eval]:
  "or_zero NaN = Fin 0" "or_zero (Fin q) = Fin q" "or_zero (Inf s) = Inf s"
  by (simp_all add: or_zero_def)

lemma or_zero_not_NaN [simp]: "or_zero x \<noteq> NaN"
  by (cases x) simp_all

lemma or_zero_finite: "\<not> is_inf x \<Longrightarrow> or_zero x = Fin (num_val x)"
  by (cases x) simp_all

lemma is_inf_or_zero [simp]: "is_inf (or_zero x) = is_inf x"
  by (cases x) simp_all

lemma digit_char_digit [simp]: "d < 10 \<Longrightarrow> is_digit (digit_char d)"
  by (simp add: digit_char_def is_digit_def)

lemma digit_val_char [simp]: "d < 10 \<Longrightarrow> digit_val (digit_char d) = d"
  by (simp add: digit_char_def digit_val_def)

lemma digits_nat_Nil [simp]: "digits_nat [] = 0"
  by (simp add: digits_nat_def)

lemma digits_nat_single [simp]: "digits_nat [c] = digit_val c"
  by (simp add: digits_nat_def)

lemma digits_nat_snoc [simp]: "digits_nat (ds @ [c]) = 10 * digits_nat ds + digit_val c"
  by (simp add: digits_nat_def)

lemma js_add_zero: "js_add x (Fin 0) = x"
  by (cases x) simp_all

lemma nat_digits_steps:
  "n < 10 \<Longrightarrow> nat_digits n = [digit_char n]"
  "10 \<le> n \<Longrightarrow> nat_digits n = nat_digits (n div 10) @ [digit_char (n mod 10)]"
  by (subst nat_digits.simps; simp)+

lemma nat_digits_nonempty [simp]: "nat_digits n \<noteq> []"
  by (subst nat_digits.simps) simp

lemma nat_digits_all_digits: "\<forall>c \<in> set (nat_digits n). is_digit c"
proof (induction n rule: nat_digits.induct)
  case (1 n)
  then show ?case by (subst nat_digits.simps) auto
qed

lemma digits_nat_nat_digits [simp]: "digits_nat (nat_digits n) = n"
proof (induction n rule: nat_digits.induct)
  case (1 n)
  then show ?case by (subst nat_digits.simps) auto
qed

lemma hd_nat_digits_not_sign: "hd (nat_digits n) \<noteq> CHR ''-'' \<and> hd (nat_digits n) \<noteq> CHR ''+''"
proof -
  have "is_digit (hd (nat_digits n))"
    using nat_digits_all_digits[of n] nat_digits_nonempty[of n] by simp
  then show ?thesis by (auto simp: is_digit_def)
qed

lemma not_ws_digit: "is_digit c \<Longrightarrow> \<not> js_ws c"
  by (auto simp: is_digit_def js_ws_def)

lemma nat_digits_Cons: "\<exists>c cs. nat_digits n = c # cs \<and> is_digit c"
  using nat_digits_all_digits[of n] nat_digits_nonempty[of n]
  by (cases "nat_digits n") auto

lemma takeWhile_all [simp]: "\<forall>c \<in> set xs. P c \<Longrightarrow> takeWhile P xs = xs"
  by (induction xs) auto

lemma nat_digits_lead_zero: "nat_digits n = CHR ''0'' # cs \<Longrightarrow> cs = []"
proof (induction n arbitrary: cs rule: nat_digits.induct)
  case (1 n)
  show ?case
  proof (cases "n < 10")
    case True
    with "1.prems" show ?thesis by (simp add: nat_digits.simps [of n])
  next
    case False
    obtain c ds where ds: "nat_digits (n div 10) = c # ds"
      using nat_digits_nonempty by (cases "nat_digits (n div 10)") auto
    with False "1.prems" have c: "c = CHR ''0''"
      by (simp add: nat_digits.simps [of n])
    with "1.IH" False ds have "ds = []" by simp
    with c ds have "n div 10 = 0"
      using digits_nat_nat_digits [of "n div 10"] by (simp add: digit_val_def)
    with False show ?thesis by simp
  qed
qed

lemma js_trim_digits:
  "xs \<noteq> [] \<Longrightarrow> \<not> js_ws (hd xs) \<Longrightarrow> \<not> js_ws (last xs) \<Longrightarrow> js_trim xs = xs"
proof -
  assume a: "xs \<noteq> []" "\<not> js_ws (hd xs)" "\<not> js_ws (last xs)"
  then have d1: "dropWhile js_ws xs = xs" by (simp add: dropWhile_eq_self_iff)
  from a have d2: "dropWhile js_ws (rev xs) = rev xs" by (simp add: dropWhile_eq_self_iff hd_rev)
  show ?thesis by (simp add: js_trim_def d1 d2)
qed

lemma digits_not_marks:
  "list_all is_digit ds \<Longrightarrow> \<forall>c \<in> set ds. \<not> is_exp_mark c \<and> c \<noteq> CHR ''.'' \<and> \<not> js_ws c"
  by (auto simp: list_all_iff is_digit_def is_exp_mark_def js_ws_def)

lemma unsigned_decimal_digits:
  assumes "ds \<noteq> []" and "list_all is_digit ds"
  shows "unsigned_decimal ds = Some (of_nat (digits_nat ds))"
proof -
  from digits_not_marks [OF assms(2)]
  have t1: "takeWhile (Not \<circ> is_exp_mark) ds = ds" and t2: "dropWhile (Not \<circ> is_exp_mark) ds = []"
    and t3: "takeWhile (\<lambda>c. c \<noteq> CHR ''.'') ds = ds" and t4: "dropWhile (\<lambda>c. c \<noteq> CHR ''.'') ds = []"
    by auto
  show ?thesis
    unfolding unsigned_decimal_def Let_def t1 t2 t3 t4 using assms by (simp add: scale10_def)
qed

lemma unsigned_number_digits:
  assumes "ds \<noteq> []" and "list_all is_digit ds"
  shows "unsigned_number ds = Some (Fin (of_nat (digits_nat ds)))"
proof -
  from assms have "is_digit (hd ds)" by (cases ds) auto
  then have "ds \<noteq> ''Infinity''" by (auto simp: is_digit_def)
  with assms show ?thesis by (simp add: unsigned_number_def unsigned_decimal_digits)
qed

lemma nat_digits_facts:
  "nat_digits n \<noteq> [] \<and> list_all is_digit (nat_digits n) \<and>
   \<not> js_ws (hd (nat_digits n)) \<and> \<not> js_ws (last (nat_digits n))"
  using nat_digits_all_digits [of n] nat_digits_nonempty [of n]
  by (auto simp: list_all_iff not_ws_digit)

lemma non_decimal_literal_nat_digits: "non_decimal_literal (nat_digits n) = None"
proof (cases "nat_digits n")
  case Nil
  then show ?thesis by (simp add: non_decimal_literal_def)
next
  case (Cons c cs)
  then show ?thesis
    using nat_digits_lead_zero [of n cs]
    by (auto simp: non_decimal_literal_def split: list.splits)
qed

lemma js_Number_nat_digits: "js_Number (nat_digits n) = Fin (of_nat n)"
proof -
  obtain c cs where ds: "nat_digits n = c # cs" and "is_digit c"
    using nat_digits_Cons by blast
  then have "c \<noteq> CHR ''+'' \<and> c \<noteq> CHR ''-''" by (auto simp: is_digit_def)
  then have "decimal_literal (nat_digits n) = unsigned_number (nat_digits n)"
    using ds by (simp add: decimal_literal_def)
  then show ?thesis
    using nat_digits_facts [of n]
    by (simp add: js_Number_def js_trim_digits non_decimal_literal_nat_digits unsigned_number_digits)
qed

lemma length_pad_start: "length (pad_start n c s) = max n (length s)"
  by (simp add: pad_start_def)

text \<open>
  The edit and delete buttons carry the payment id as the text \<open>${p.id}\<close> and the
  handlers read it back with \<open>Number(...)\<close>: for an integer id this recovers the id.
\<close>

theorem js_Number_int_str: "js_Number (int_str i) = Fin (of_int i)"
proof (cases "i < 0")
  case True
  have "js_trim (CHR ''-'' # nat_digits (nat (- i))) = CHR ''-'' # nat_digits (nat (- i))"
    using nat_digits_facts [of "nat (- i)"]
    by (intro js_trim_digits) (auto simp: js_ws_def)
  moreover have "non_decimal_literal (CHR ''-'' # nat_digits (nat (- i))) = None"
    by (simp add: non_decimal_literal_def split: list.splits)
  ultimately show ?thesis
    using True nat_digits_facts [of "nat (- i)"]
    by (simp add: int_str_def js_Number_def decimal_literal_def unsigned_number_digits)
next
  case False
  then have "int_str i = nat_digits (nat i)" by (simp add: int_str_def)
  with False show ?thesis by (simp add: js_Number_nat_digits)
qed

lemma digits_nat_zeros: "digits_nat (replicate k (CHR ''0'') @ ds) = digits_nat ds"
proof (induction k)
  case 0
  then show ?case by simp
next
  case (Suc k)
  have "digits_nat (replicate (Suc k) (CHR ''0'') @ ds) = foldl (\<lambda>n c. 10 * n + digit_val c) (10 * 0 + digit_val (CHR ''0'')) (replicate k (CHR ''0'') @ ds)"
    by (simp add: digits_nat_def)
  also have "\<dots> = digits_nat (replicate k (CHR ''0'') @ ds)"
    by (simp add: digits_nat_def digit_val_def)
  finally show ?case using Suc.IH by simp
qed

lemma parseInt10_digits:
  assumes "ds \<noteq> []" and "list_all is_digit ds"
  shows "parseInt10 ds = Some (int (digits_nat ds))"
proof -
  obtain c cs where ds: "ds = c # cs" using assms(1) by (cases ds) auto
  with assms(2) have c: "is_digit c" by simp
  then have "\<not> js_ws c" "c \<noteq> CHR ''-''" "c \<noteq> CHR ''+''"
    by (auto simp: not_ws_digit is_digit_def)
  moreover have "takeWhile is_digit ds = ds" using assms(2) by (simp add: list_all_iff)
  ultimately show ?thesis using ds by (simp add: parseInt10_def)
qed

lemma length_nat_digits: "10 ^ k \<le> n \<Longrightarrow> n < 10 ^ Suc k \<Longrightarrow> length (nat_digits n) = Suc k"
proof (induction k arbitrary: n)
  case 0
  then show ?case by (simp add: nat_digits.simps [of n])
next
  case (Suc k)
  from Suc.prems have "10 ^ k \<le> n div 10" by (simp add: less_eq_div_iff_mult_less_eq)
  moreover from Suc.prems have "n div 10 < 10 ^ Suc k" by (simp add: div_less_iff_less_mult)
  moreover have "\<not> n < 10"
  proof -
    have "(1::nat) \<le> 10 ^ k" by simp
    then have "(10::nat) \<le> 10 ^ Suc k" by simp
    with Suc.prems show ?thesis by linarith
  qed
  ultimately show ?case using Suc.IH by (simp add: nat_digits.simps [of n])
qed

lemma int_str_nonneg: "0 \<le> i \<Longrightarrow> int_str i = nat_digits (nat i)"
  by (simp add: int_str_def)

lemma digit_string_int_str:
  "0 \<le> i \<Longrightarrow> int_str i \<noteq> [] \<and> list_all is_digit (int_str i) \<and> int (digits_nat (int_str i)) = i"
  using nat_digits_facts [of "nat i"] by (simp add: int_str_nonneg)

lemma pad_start_digits:
  assumes "0 \<le> i"
  shows "list_all is_digit (pad_start n CHR ''0'' (int_str i)) \<and>
     int (digits_nat (pad_start n CHR ''0'' (int_str i))) = i \<and> pad_start n CHR ''0'' (int_str i) \<noteq> []"
proof -
  have z: "is_digit (CHR ''0'')" by (simp add: is_digit_def)
  from digit_string_int_str [OF assms] show ?thesis
    using z by (auto simp: pad_start_def digits_nat_zeros list_all_iff set_replicate_conv_if)
qed

lemma digit_val_le: "is_digit c \<Longrightarrow> digit_val c \<le> 9"
  unfolding is_digit_def digit_val_def by linarith

lemma digits_nat_less: "list_all is_digit ds \<Longrightarrow> digits_nat ds < 10 ^ length ds"
proof (induction ds rule: rev_induct)
  case Nil
  then show ?case by simp
next
  case (snoc c ds)
  then have "digits_nat ds < 10 ^ length ds" "digit_val c \<le> 9" by (simp_all add: digit_val_le)
  then show ?case by simp
qed

lemma length_js_trim: "length (js_trim s) \<le> length s"
  by (simp add: js_trim_def length_dropWhile_le order_trans [OF length_dropWhile_le])


lemma js_Number_Nil: "js_Number [] = Fin 0"
  by (simp add: js_Number_def js_trim_def)

end
