(* ===== verification/Payments.thy ===== *)
theory Payments
  imports JsValue
begin

text \<open>
  The in-memory payment collection of \<open>src/www/app.js\<close>: the record type, \<open>nextId\<close>,
  \<open>getTotals\<close>, and the list transformations that \<open>addPayment\<close>,
  \<open>updatePayment\<close> and \<open>deletePayment\<close> apply to the global \<open>payments\<close> array before
  they persist and re-render (persistence and rendering are composed in theory \<open>App\<close>).
  The collection invariant \<open>wf_payments\<close> (distinct ids, no \<open>NaN\<close> amount, dates of at
  most ten characters) is preserved by every operation.
\<close>

section \<open>Data\<close>

text \<open>
  A payment object \<open>{id, amount, date}\<close>. The field \<open>id\<close> is \<open>pid\<close> (\<open>id\<close> is the
  identity function of HOL). Ids are integers, so the source's filter
  \<open>filter(Number.isFinite)\<close> in \<open>nextId\<close> keeps every id.
\<close>

record payment =
  pid :: int
  amount :: jsnum
  date :: string

type_synonym payments = "payment list"

section \<open>Operations\<close>

text \<open>\<open>nextId()\<close>: one more than the largest id, or 1 for an empty collection.\<close>

definition nextId :: "payments \<Rightarrow> int" where
  "nextId ps = (let ids = map pid ps in if ids \<noteq> [] then Max (set ids) + 1 else 1)"

text \<open>\<open>getTotals()\<close>: the sum of \<open>Number(p.amount) || 0\<close> from \<open>0\<close>, and the length.\<close>

definition getTotals :: "payments \<Rightarrow> jsnum \<times> nat" where
  "getTotals ps = (foldl (\<lambda>sum p. js_add sum (or_zero (amount p))) (Fin 0) ps, length ps)"

text \<open>The id test \<open>x.id === Number(id)\<close> of \<open>updatePayment\<close> and its negation in \<open>deletePayment\<close>.\<close>

definition id_matches :: "string \<Rightarrow> payment \<Rightarrow> bool" where
  "id_matches idstr x \<longleftrightarrow> Fin (of_int (pid x)) = js_Number idstr"

text \<open>The stored date: \<open>date ? date.slice(0, 10) : ''\<close>.\<close>

definition date_field :: "string \<Rightarrow> string" where
  "date_field d = (if d \<noteq> [] then take 10 d else [])"

text \<open>The object that \<open>addPayment(amount, date)\<close> pushes (lines 182--187).\<close>

definition new_payment :: "payments \<Rightarrow> string \<Rightarrow> string \<Rightarrow> payment" where
  "new_payment ps a d = \<lparr>pid = nextId ps, amount = or_zero (js_Number a), date = date_field d\<rparr>"

definition payments_add :: "payments \<Rightarrow> string \<Rightarrow> string \<Rightarrow> payments" where
  "payments_add ps a d = ps @ [new_payment ps a d]"

text \<open>
  \<open>updatePayment(id, amount, date)\<close>, lines 193--196: \<open>find\<close> the first payment whose id
  matches; when there is none the handler returns early (\<open>None\<close>), otherwise that object's
  amount and date are overwritten in place.
\<close>

definition payments_update :: "payments \<Rightarrow> string \<Rightarrow> string \<Rightarrow> string \<Rightarrow> payments option" where
  "payments_update ps idstr a d =
     (case List.find (id_matches idstr) ps of
        None \<Rightarrow> None
      | Some _ \<Rightarrow> Some (modify_first (id_matches idstr)
                        (\<lambda>p. p\<lparr>amount := or_zero (js_Number a), date := date_field d\<rparr>) ps))"

text \<open>\<open>deletePayment(id)\<close>, line 202: keep the payments whose id differs.\<close>

definition payments_delete :: "payments \<Rightarrow> string \<Rightarrow> payments" where
  "payments_delete ps idstr = filter (\<lambda>p. \<not> id_matches idstr p) ps"

section \<open>The collection invariant\<close>

definition wf_payments :: "payments \<Rightarrow> bool" where
  "wf_payments ps \<longleftrightarrow>
     distinct (map pid ps) \<and> (\<forall>p \<in> set ps. amount p \<noteq> NaN \<and> length (date p) \<le> 10)"

section \<open>The abstract ledger\<close>

text \<open>
  What the collection promises, stated without its order: a finite map from each id to that
  payment's amount and date. With distinct ids, \<open>addPayment\<close> inserts a fresh key,
  \<open>updatePayment\<close> overwrites an existing key or fails, and \<open>deletePayment\<close> removes a
  key (lemma \<open>payments_refine_ledger\<close>).
\<close>

type_synonym ledger = "int \<rightharpoonup> jsnum \<times> string"

definition ledger_of :: "payments \<Rightarrow> ledger" where
  "ledger_of ps = map_of (map (\<lambda>p. (pid p, (amount p, date p))) ps)"

section \<open>Lemmas\<close>

lemma nextId_Nil [simp]: "nextId [] = 1"
  by (simp add: nextId_def)

lemma nextId_gt: "p \<in> set ps \<Longrightarrow> pid p < nextId ps"
proof -
  assume p: "p \<in> set ps"
  then have "pid p \<le> Max (set (map pid ps))" by simp
  with p show ?thesis by (auto simp: nextId_def)
qed

lemma nextId_fresh: "nextId ps \<notin> set (map pid ps)"
  using nextId_gt by fastforce

lemma id_matches_pid:
  "js_Number idstr = Fin (of_int i) \<Longrightarrow> id_matches idstr x \<longleftrightarrow> pid x = i"
  by (simp add: id_matches_def)

lemma length_date_field: "length (date_field d) \<le> 10"
  by (simp add: date_field_def)

lemma new_payment_fields [simp]:
  "pid (new_payment ps a d) = nextId ps"
  "amount (new_payment ps a d) = or_zero (js_Number a)"
  "date (new_payment ps a d) = date_field d"
  by (simp_all add: new_payment_def)

lemma wf_payments_Nil [simp, inv_rules]: "wf_payments []"
  by (simp add: wf_payments_def)

lemma wf_payments_add [inv_rules]: "wf_payments ps \<Longrightarrow> wf_payments (payments_add ps a d)"
  using nextId_fresh [of ps]
  by (auto simp: wf_payments_def payments_add_def length_date_field)

lemma payments_update_None:
  "payments_update ps idstr a d = None \<longleftrightarrow> (\<forall>p \<in> set ps. \<not> id_matches idstr p)"
proof -
  have "payments_update ps idstr a d = None \<longleftrightarrow> List.find (id_matches idstr) ps = None"
    by (simp add: payments_update_def split: option.split)
  also have "\<dots> \<longleftrightarrow> (\<forall>p \<in> set ps. \<not> id_matches idstr p)"
    by (auto simp: find_None_iff)
  finally show ?thesis .
qed

lemma wf_payments_update [inv_rules]:
  assumes "wf_payments ps" and "payments_update ps idstr a d = Some ps'"
  shows "wf_payments ps'"
proof -
  let ?f = "\<lambda>p. p\<lparr>amount := or_zero (js_Number a), date := date_field d\<rparr>"
  from assms(2) have ps': "ps' = modify_first (id_matches idstr) ?f ps"
    by (simp add: payments_update_def split: option.splits)
  then have "map pid ps' = map pid ps" by (simp add: map_modify_first)
  moreover have "set ps' \<subseteq> set ps \<union> ?f ` {x \<in> set ps. id_matches idstr x}"
    unfolding ps' by (rule set_modify_first_subset)
  ultimately show ?thesis
    using assms(1) by (fastforce simp: wf_payments_def length_date_field)
qed

lemma wf_payments_delete [inv_rules]: "wf_payments ps \<Longrightarrow> wf_payments (payments_delete ps idstr)"
  by (auto simp: wf_payments_def payments_delete_def distinct_map_filter)

lemma foldl_or_zero:
  "foldl (\<lambda>sum p. js_add sum (or_zero (amount p))) acc ps =
   foldl js_add acc (filter js_truthy (map amount ps))"
  by (induction ps arbitrary: acc) (simp_all add: or_zero_def js_add_zero)

lemma id_matches_iff_pid:
  "js_Number idstr = Fin (of_int i) \<Longrightarrow> id_matches idstr = (\<lambda>x. pid x = i)"
  by (rule ext) (simp add: id_matches_def)

lemma pids_payments_add: "map pid (payments_add ps a d) = map pid ps @ [nextId ps]"
  by (simp add: payments_add_def)

lemma pids_payments_update:
  "payments_update ps idstr a d = Some ps' \<Longrightarrow> map pid ps' = map pid ps"
  by (auto simp: payments_update_def map_modify_first split: option.splits)

lemma payments_update_key:
  assumes "distinct (map pid ps)" and "k \<in> pid ` set ps" and "id_matches idstr = (\<lambda>x. pid x = k)"
  shows "payments_update ps idstr a d =
           Some (map (\<lambda>q. if pid q = k
                           then q\<lparr>amount := or_zero (js_Number a), date := date_field d\<rparr> else q) ps)"
proof -
  from assms(2) have "List.find (\<lambda>x. pid x = k) ps \<noteq> None"
    by (auto simp: find_None_iff)
  with assms(1) show ?thesis
    by (auto simp: payments_update_def assms(3) modify_first_distinct_key split: option.split)
qed

lemma id_matches_int_str: "id_matches (int_str k) = (\<lambda>p. pid p = k)"
  by (rule id_matches_iff_pid) (simp add: js_Number_int_str)

lemma payments_delete_int_str: "payments_delete ps (int_str k) = filter (\<lambda>p. pid p \<noteq> k) ps"
  by (simp add: payments_delete_def id_matches_int_str)

lemma pid_set_payments_add: "pid ` set ps \<subseteq> pid ` set (payments_add ps a d)"
  by (auto simp: payments_add_def)

lemma pid_set_payments_update:
  "payments_update ps idstr a d = Some ps' \<Longrightarrow> pid ` set ps' = pid ` set ps"
  by (metis pids_payments_update set_map)

lemma dom_ledger_of [simp]: "dom (ledger_of ps) = pid ` set ps"
  by (simp add: ledger_of_def dom_map_of_conv_image_fst image_image)

lemma ledger_add:
  "ledger_of (payments_add ps a d) = (ledger_of ps)(nextId ps \<mapsto> (or_zero (js_Number a), date_field d))"
proof -
  have "ledger_of ps (nextId ps) = None"
    using nextId_fresh [of ps] by (simp add: ledger_of_def map_of_eq_None_iff image_image)
  then show ?thesis
    by (auto simp: ledger_of_def payments_add_def map_of_append map_add_def intro!: ext split: option.split)
qed

lemma ledger_delete:
  "js_Number idstr = Fin (of_int k) \<Longrightarrow> ledger_of (payments_delete ps idstr) = (ledger_of ps)(k := None)"
  by (simp add: ledger_of_def payments_delete_def id_matches_iff_pid map_of_filter_key)

lemma ledger_update:
  assumes "wf_payments ps" and "js_Number idstr = Fin (of_int k)"
  shows "map_option ledger_of (payments_update ps idstr a d) =
           (if k \<in> dom (ledger_of ps) then Some ((ledger_of ps)(k \<mapsto> (or_zero (js_Number a), date_field d)))
            else None)"
proof (cases "k \<in> pid ` set ps")
  case True
  have m: "id_matches idstr = (\<lambda>x. pid x = k)" using assms(2) by (rule id_matches_iff_pid)
  from assms(1) have "distinct (map pid ps)" by (simp add: wf_payments_def)
  from payments_update_key [OF this True m] True show ?thesis
    by (simp add: ledger_of_def map_of_update_key [where k = pid and v = "\<lambda>p. (amount p, date p)"]
                  dom_map_of_conv_image_fst image_image)
next
  case False
  then have "payments_update ps idstr a d = None"
    using id_matches_iff_pid [OF assms(2)] by (auto simp: payments_update_None)
  with False show ?thesis by simp
qed

section \<open>Properties of the collection operations\<close>

text \<open>
  C1. \<open>addPayment\<close> gives the new payment an id strictly greater than the id of every
  payment already in the collection.
\<close>

theorem add_assigns_greater_id:
  assumes "p \<in> set ps"
  shows "pid p < pid (last (payments_add ps a d))"
  using nextId_gt [OF assms] by (simp add: payments_add_def)

theorem add_assigns_greater_id_witness:
  "pid (last (payments_add [\<lparr>pid = 4, amount = Fin 10, date = ''''\<rparr>] ''5'' '''')) = 5 \<and>
   (4::int) < pid (last (payments_add [\<lparr>pid = 4, amount = Fin 10, date = ''''\<rparr>] ''5'' ''''))"
proof -
  have "pid \<lparr>pid = 4, amount = Fin 10, date = ''''\<rparr>
          < pid (last (payments_add [\<lparr>pid = 4, amount = Fin 10, date = ''''\<rparr>] ''5'' ''''))"
    by (rule add_assigns_greater_id) simp
  moreover have "pid (last (payments_add [\<lparr>pid = 4, amount = Fin 10, date = ''''\<rparr>] ''5'' '''')) = 5"
    by (simp add: payments_add_def nextId_def)
  ultimately show ?thesis by simp
qed

text \<open>
  C2. \<open>updatePayment\<close> with the id of a payment of a well-formed collection replaces the
  amount and date of exactly that payment and leaves every other payment, every id and the
  order unchanged.
\<close>

theorem update_present:
  assumes "wf_payments ps" and "p \<in> set ps" and "js_Number idstr = Fin (of_int (pid p))"
  shows "payments_update ps idstr a d =
           Some (map (\<lambda>q. if pid q = pid p
                           then q\<lparr>amount := or_zero (js_Number a), date := date_field d\<rparr> else q) ps)"
proof -
  have "id_matches idstr = (\<lambda>x. pid x = pid p)"
    using assms(3) by (rule id_matches_iff_pid)
  with assms(1,2) show ?thesis by (simp add: wf_payments_def payments_update_key)
qed

theorem update_present_witness:
  "payments_update [\<lparr>pid = 1, amount = Fin 10, date = ''''\<rparr>, \<lparr>pid = 2, amount = Fin 20, date = ''''\<rparr>]
      ''2'' ''25'' ''2024-01-01'' =
   Some [\<lparr>pid = 1, amount = Fin 10, date = ''''\<rparr>, \<lparr>pid = 2, amount = Fin 25, date = ''2024-01-01''\<rparr>]"
proof -
  have n2: "js_Number ''2'' = Fin (of_int 2)" by code_simp
  have n25: "js_Number ''25'' = Fin 25" by code_simp
  show ?thesis
    using update_present [of "[\<lparr>pid = 1, amount = Fin 10, date = ''''\<rparr>, \<lparr>pid = 2, amount = Fin 20, date = ''''\<rparr>]"
                             "\<lparr>pid = 2, amount = Fin 20, date = ''''\<rparr>" "''2''" "''25''" "''2024-01-01''"]
    by (simp add: wf_payments_def n2 n25 date_field_def)
qed

text \<open>
  C3. \<open>updatePayment\<close> returns early, changing nothing, exactly when no payment's id
  equals \<open>Number(id)\<close>.
\<close>

theorem update_absent:
  "payments_update ps idstr a d = None \<longleftrightarrow> (\<forall>p \<in> set ps. \<not> id_matches idstr p)"
  by (rule payments_update_None)

theorem update_absent_witness:
  "payments_update [\<lparr>pid = 1, amount = Fin 10, date = ''''\<rparr>] ''abc'' ''5'' '''' = None"
proof -
  have "js_Number ''abc'' = NaN" by code_simp
  then have "\<forall>p \<in> set [\<lparr>pid = 1, amount = Fin 10, date = ''''\<rparr>]. \<not> id_matches ''abc'' p"
    by (simp add: id_matches_def)
  then show ?thesis using update_absent by blast
qed

text \<open>
  C4. \<open>deletePayment\<close> with the id of a payment of a well-formed collection removes that
  payment and only it: the length drops by exactly one.
\<close>

theorem delete_present:
  assumes "wf_payments ps" and "p \<in> set ps" and "js_Number idstr = Fin (of_int (pid p))"
  shows "length (payments_delete ps idstr) = length ps - 1 \<and> set (payments_delete ps idstr) = set ps - {p}"
proof -
  have m: "id_matches idstr = (\<lambda>x. pid x = pid p)"
    using assms(3) by (rule id_matches_iff_pid)
  from assms(1) have d: "distinct (map pid ps)" by (simp add: wf_payments_def)
  have "set (filter (\<lambda>y. pid y \<noteq> pid p) ps) = set ps - {p}"
    using d assms(2) by (rule set_filter_key_distinct)
  moreover have "length (filter (\<lambda>y. pid y \<noteq> pid p) ps) = length ps - 1"
    using d assms(2) by (rule length_filter_key_distinct)
  ultimately show ?thesis
    by (simp add: payments_delete_def m del: set_filter)
qed

theorem delete_present_witness:
  "length (payments_delete [\<lparr>pid = 1, amount = Fin 10, date = ''''\<rparr>, \<lparr>pid = 2, amount = Fin 20, date = ''''\<rparr>] ''1'') = 1"
proof -
  have n1: "js_Number ''1'' = Fin (of_int 1)" by code_simp
  show ?thesis
    using delete_present [of "[\<lparr>pid = 1, amount = Fin 10, date = ''''\<rparr>, \<lparr>pid = 2, amount = Fin 20, date = ''''\<rparr>]"
                             "\<lparr>pid = 1, amount = Fin 10, date = ''''\<rparr>" "''1''"]
    by (simp add: wf_payments_def n1)
qed

text \<open>C5. \<open>deletePayment\<close> with an id that no payment has leaves the collection unchanged.\<close>

theorem delete_absent:
  assumes "\<forall>p \<in> set ps. \<not> id_matches idstr p"
  shows "payments_delete ps idstr = ps"
  using assms by (simp add: payments_delete_def)

theorem delete_absent_witness:
  "payments_delete [\<lparr>pid = 1, amount = Fin 10, date = ''''\<rparr>] ''7'' = [\<lparr>pid = 1, amount = Fin 10, date = ''''\<rparr>]"
proof -
  have "js_Number ''7'' = Fin (of_int 7)" by code_simp
  then have "\<forall>p \<in> set [\<lparr>pid = 1, amount = Fin 10, date = ''''\<rparr>]. \<not> id_matches ''7'' p"
    by (simp add: id_matches_def)
  then show ?thesis by (rule delete_absent)
qed


text \<open>
  C26. Refinement of the abstract ledger: on a well-formed collection and an id string that
  denotes the integer \<open>k\<close>, \<open>addPayment\<close> inserts its payment under a key not yet
  present, \<open>updatePayment\<close> overwrites the entry of \<open>k\<close> when there is one and fails
  otherwise, and \<open>deletePayment\<close> removes the entry of \<open>k\<close>.
\<close>

theorem payments_refine_ledger:
  assumes "wf_payments ps" and "js_Number idstr = Fin (of_int k)"
  shows "ledger_of (payments_add ps a d) = (ledger_of ps)(nextId ps \<mapsto> (or_zero (js_Number a), date_field d)) \<and>
         nextId ps \<notin> dom (ledger_of ps) \<and>
         map_option ledger_of (payments_update ps idstr a d) =
           (if k \<in> dom (ledger_of ps) then Some ((ledger_of ps)(k \<mapsto> (or_zero (js_Number a), date_field d)))
            else None) \<and>
         ledger_of (payments_delete ps idstr) = (ledger_of ps)(k := None)"
  using ledger_add ledger_update [OF assms] ledger_delete [OF assms(2)] nextId_fresh [of ps]
  by (simp add: image_image)

theorem payments_refine_ledger_witness:
  "ledger_of (payments_delete [\<lparr>pid = 1, amount = Fin 10, date = ''''\<rparr>, \<lparr>pid = 2, amount = Fin 20, date = ''''\<rparr>] ''1'')
     = [2 \<mapsto> (Fin 20, '''')]"
proof -
  have n1: "js_Number ''1'' = Fin (of_int 1)" by code_simp
  have "ledger_of (payments_delete [\<lparr>pid = 1, amount = Fin 10, date = ''''\<rparr>, \<lparr>pid = 2, amount = Fin 20, date = ''''\<rparr>] ''1'')
        = (ledger_of [\<lparr>pid = 1, amount = Fin 10, date = ''''\<rparr>, \<lparr>pid = 2, amount = Fin 20, date = ''''\<rparr>])(1 := None)"
    using payments_refine_ledger [of "[\<lparr>pid = 1, amount = Fin 10, date = ''''\<rparr>, \<lparr>pid = 2, amount = Fin 20, date = ''''\<rparr>]" "''1''" 1 "''''" "''''"] n1
    by (simp add: wf_payments_def)
  then show ?thesis by (simp add: ledger_of_def fun_upd_twist)
qed
end
