(* ===== verification/Json.thy ===== *)
theory Json
  imports Payments
begin

text \<open>
  \<open>JSON.stringify\<close> as \<open>save()\<close> in \<open>src/www/app.js\<close> applies it to the payment
  array: JSON values, ECMAScript's \<open>Number::toString\<close> for numbers (non-finite numbers
  become \<open>null\<close>), \<open>QuoteJSONString\<close> for strings, and the encoding of a payment object
  \<open>{id, amount, date}\<close> with its keys in creation order. Modelled from the ECMAScript
  specification; the payment encoding follows the object literal of \<open>addPayment\<close>.
\<close>

datatype json = JNull | JBool bool | JNum jsnum | JStr string | JArr "json list"
  | JObj "(string \<times> json) list"

section \<open>\<open>Number::toString\<close>\<close>

text \<open>
  For a positive finite value \<open>q\<close>: the decimal exponent \<open>n\<close> with
  \<open>10^(n-1) \<le> q < 10^n\<close>, the least number \<open>k\<close> of significant digits (at most 17,
  the digits a binary64 value needs) and the digit string \<open>s\<close> of
  \<open>q \<cdot> 10^(k-n)\<close>; then the layout of ECMAScript's \<open>Number::toString\<close> steps 6--10.
\<close>

definition is_int_rat :: "rat \<Rightarrow> bool" where
  "is_int_rat r \<longleftrightarrow> r = of_int \<lfloor>r\<rfloor>"

definition dec_exponent :: "rat \<Rightarrow> int" where
  "dec_exponent q =
     (let n0 = (if 1 \<le> q then int (length (nat_digits (nat \<lfloor>q\<rfloor>)))
                else 1 - int (length (nat_digits (nat \<lfloor>inverse q\<rfloor>))))
      in if scale10 n0 \<le> q then n0 + 1 else n0)"

definition sig_digits :: "rat \<Rightarrow> int \<Rightarrow> nat" where
  "sig_digits q n =
     (case List.find (\<lambda>k. is_int_rat (q * scale10 (int k - n))) [1..<18] of Some k \<Rightarrow> k | None \<Rightarrow> 17)"

definition exp_suffix :: "int \<Rightarrow> string" where
  "exp_suffix e = CHR ''e'' # (if e < 0 then CHR ''-'' else CHR ''+'') # nat_digits (nat \<bar>e\<bar>)"

definition layout_number :: "string \<Rightarrow> int \<Rightarrow> string" where
  "layout_number s n =
     (let k = int (length s)
      in if k \<le> n \<and> n \<le> 21 then s @ replicate (nat (n - k)) CHR ''0''
         else if 0 < n \<and> n \<le> 21 then take (nat n) s @ CHR ''.'' # drop (nat n) s
         else if -6 < n \<and> n \<le> 0 then CHR ''0'' # CHR ''.'' # replicate (nat (- n)) CHR ''0'' @ s
         else if k = 1 then s @ exp_suffix (n - 1)
         else [hd s] @ CHR ''.'' # tl s @ exp_suffix (n - 1))"

definition pos_to_string :: "rat \<Rightarrow> string" where
  "pos_to_string q =
     (let n = dec_exponent q; k = sig_digits q n
      in layout_number (nat_digits (nat \<lfloor>q * scale10 (int k - n)\<rfloor>)) n)"

fun num_to_string :: "jsnum \<Rightarrow> string" where
  "num_to_string NaN = ''NaN''"
| "num_to_string (Inf True) = ''Infinity''"
| "num_to_string (Inf False) = ''-Infinity''"
| "num_to_string (Fin q) =
     (if q = 0 then ''0'' else if q < 0 then CHR ''-'' # pos_to_string (- q) else pos_to_string q)"

section \<open>\<open>QuoteJSONString\<close>\<close>

definition hex_digit :: "nat \<Rightarrow> char" where
  "hex_digit d = (if d < 10 then char_of (48 + d) else char_of (87 + d))"

definition json_escape :: "char \<Rightarrow> string" where
  "json_escape c =
     (let k = (of_char c :: nat); bs = CHR 0x5C
      in if k = 8 then [bs, CHR ''b''] else if k = 9 then [bs, CHR ''t'']
         else if k = 10 then [bs, CHR ''n''] else if k = 12 then [bs, CHR ''f'']
         else if k = 13 then [bs, CHR ''r''] else if k = 34 then [bs, c]
         else if k = 92 then [bs, bs]
         else if k < 32 then [bs, CHR ''u'', CHR ''0'', CHR ''0'', hex_digit (k div 16), hex_digit (k mod 16)]
         else [c])"

definition json_quote :: "string \<Rightarrow> string" where
  "json_quote s = CHR 0x22 # concat (map json_escape s) @ [CHR 0x22]"

section \<open>\<open>JSON.stringify\<close>\<close>

definition json_number :: "jsnum \<Rightarrow> string" where
  "json_number x = (case x of Fin q \<Rightarrow> num_to_string x | _ \<Rightarrow> ''null'')"

fun json_stringify :: "json \<Rightarrow> string" where
  "json_stringify JNull = ''null''"
| "json_stringify (JBool b) = (if b then ''true'' else ''false'')"
| "json_stringify (JNum x) = json_number x"
| "json_stringify (JStr s) = json_quote s"
| "json_stringify (JArr vs) = CHR ''['' # join_with '','' (map json_stringify vs) @ '']''"
| "json_stringify (JObj kvs) =
     CHR ''{'' # join_with '','' (map (\<lambda>(k, v). json_quote k @ CHR '':'' # json_stringify v) kvs) @ ''}''"

section \<open>The payment array as JSON\<close>

definition payment_json :: "payment \<Rightarrow> json" where
  "payment_json p = JObj [(''id'', JNum (Fin (of_int (pid p)))), (''amount'', JNum (amount p)), (''date'', JStr (date p))]"

definition payments_json :: "payments \<Rightarrow> json" where
  "payments_json ps = JArr (map payment_json ps)"


section \<open>\<open>JSON.parse\<close>\<close>

text \<open>
  ECMAScript's \<open>JSON.parse\<close> without a reviver: the JSON text grammar of ECMA-404 read
  by recursive descent. A parser returns the value and the remaining input
  (\<open>POk\<close>), a syntax error (\<open>PErr\<close>, the \<open>SyntaxError\<close> that \<open>load\<close> catches), or
  \<open>PFuel\<close> when its fuel, a bound on the nesting of values and the length of
  arrays, is spent. \<open>json_parse\<close> gives \<open>2 * length s + 1\<close>, which every text
  \<open>s\<close> needs at most (lemma \<open>parse_value_fuel\<close>). A number's value is that of its
  literal under \<open>Number\<close> (\<open>js_Number\<close>), as the specification defines it; a
  \<open>\u\<close> escape beyond \<open>U+00FF\<close> has no character in the byte-string model and is
  rejected.
\<close>

datatype presult = POk json string | PErr | PFuel

definition json_ws :: "char \<Rightarrow> bool" where
  "json_ws c \<longleftrightarrow> of_char c \<in> {9, 10, 13, 32 :: nat}"

definition skip_ws :: "string \<Rightarrow> string" where
  "skip_ws s = dropWhile json_ws s"

definition digits_span :: "string \<Rightarrow> string \<times> string" where
  "digits_span s = (takeWhile is_digit s, dropWhile is_digit s)"

text \<open>The optional fraction \<open>. digits\<close> and exponent \<open>(e|E) [+|-] digits\<close> of a number.\<close>

definition lex_frac :: "string \<Rightarrow> (string \<times> string) option" where
  "lex_frac s =
     (if s \<noteq> [] \<and> hd s = CHR ''.''
      then (let (ds, r) = digits_span (tl s) in if ds = [] then None else Some (CHR ''.'' # ds, r))
      else Some ([], s))"

definition lex_exp :: "string \<Rightarrow> (string \<times> string) option" where
  "lex_exp s =
     (if s \<noteq> [] \<and> is_exp_mark (hd s)
      then (let r = tl s;
                (sg, r1) = (if r \<noteq> [] \<and> (hd r = CHR ''+'' \<or> hd r = CHR ''-'') then ([hd r], tl r) else ([], r));
                (ds, r2) = digits_span r1
            in if ds = [] then None else Some (hd s # sg @ ds, r2))
      else Some ([], s))"

text \<open>A number: an optional minus, \<open>0\<close> or digits not starting with \<open>0\<close>, fraction, exponent.\<close>

definition lex_number :: "string \<Rightarrow> (string \<times> string) option" where
  "lex_number s =
     (let (sg, r0) = (if s \<noteq> [] \<and> hd s = CHR ''-'' then (''-'', tl s) else ([], s));
          (ip, r1) = digits_span r0
      in if ip = [] \<or> (hd ip = CHR ''0'' \<and> tl ip \<noteq> []) then None
         else case lex_frac r1 of
                None \<Rightarrow> None
              | Some (fp, r2) \<Rightarrow> (case lex_exp r2 of
                                   None \<Rightarrow> None
                                 | Some (ep, r3) \<Rightarrow> Some (sg @ ip @ fp @ ep, r3)))"

text \<open>The character a one-letter escape \<open>\c\<close> stands for.\<close>

definition simple_escape :: "char \<Rightarrow> char option" where
  "simple_escape c =
     (if c = CHR 0x22 then Some c else if c = CHR 0x5C then Some c
      else if c = CHR ''/'' then Some c else if c = CHR ''b'' then Some (CHR 0x08)
      else if c = CHR ''f'' then Some (CHR 0x0C) else if c = CHR ''n'' then Some (CHR 0x0A)
      else if c = CHR ''r'' then Some (CHR 0x0D) else if c = CHR ''t'' then Some (CHR 0x09)
      else None)"

definition cons_str :: "char \<Rightarrow> (string \<times> string) option \<Rightarrow> (string \<times> string) option" where
  "cons_str c r = map_option (\<lambda>(t, rest). (c # t, rest)) r"

text \<open>The characters of a string literal after its opening quote, up to the closing one.\<close>

fun parse_str :: "string \<Rightarrow> (string \<times> string) option" where
  "parse_str [] = None"
| "parse_str [c] = (if c = CHR 0x22 then Some ([], []) else None)"
| "parse_str (c # e # r) =
     (if c = CHR 0x22 then Some ([], e # r)
      else if c = CHR 0x5C then
        (case simple_escape e of
           Some d \<Rightarrow> cons_str d (parse_str r)
         | None \<Rightarrow>
             (if e = CHR ''u'' \<and> 4 \<le> length r then
                (case radix_val 16 0 (take 4 r) of
                   Some k \<Rightarrow> (if k < 256 then cons_str (char_of k) (parse_str (drop 4 r)) else None)
                 | None \<Rightarrow> None)
              else None))
      else if (of_char c :: nat) < 32 then None
      else cons_str c (parse_str (e # r)))"

text \<open>Values, the elements of an array after \<open>[\<close>, the members of an object after \<open>{\<close>.\<close>

fun parse_value :: "nat \<Rightarrow> string \<Rightarrow> presult"
and parse_elems :: "nat \<Rightarrow> json list \<Rightarrow> string \<Rightarrow> presult"
and parse_members :: "nat \<Rightarrow> (string \<times> json) list \<Rightarrow> string \<Rightarrow> presult" where
  "parse_value 0 s = PFuel"
| "parse_value (Suc n) s =
     (let t = skip_ws s
      in if t = [] then PErr
         else if take 4 t = ''null'' then POk JNull (drop 4 t)
         else if take 4 t = ''true'' then POk (JBool True) (drop 4 t)
         else if take 5 t = ''false'' then POk (JBool False) (drop 5 t)
         else if hd t = CHR 0x22 then
           (case parse_str (tl t) of None \<Rightarrow> PErr | Some (str, r) \<Rightarrow> POk (JStr str) r)
         else if hd t = CHR ''['' then
           (let r = skip_ws (tl t)
            in if r \<noteq> [] \<and> hd r = CHR '']'' then POk (JArr []) (tl r) else parse_elems n [] r)
         else if hd t = CHR ''{'' then
           (let r = skip_ws (tl t)
            in if r \<noteq> [] \<and> hd r = CHR ''}'' then POk (JObj []) (tl r) else parse_members n [] r)
         else (case lex_number t of None \<Rightarrow> PErr | Some (lx, r) \<Rightarrow> POk (JNum (js_Number lx)) r))"
| "parse_elems 0 acc s = PFuel"
| "parse_elems (Suc n) acc s =
     (case parse_value n s of
        POk v r \<Rightarrow>
          (let r' = skip_ws r
           in if r' \<noteq> [] \<and> hd r' = CHR '','' then parse_elems n (acc @ [v]) (tl r')
              else if r' \<noteq> [] \<and> hd r' = CHR '']'' then POk (JArr (acc @ [v])) (tl r')
              else PErr)
      | PErr \<Rightarrow> PErr
      | PFuel \<Rightarrow> PFuel)"
| "parse_members 0 acc s = PFuel"
| "parse_members (Suc n) acc s =
     (let t = skip_ws s
      in if t = [] \<or> hd t \<noteq> CHR 0x22 then PErr
         else case parse_str (tl t) of
           None \<Rightarrow> PErr
         | Some (k, r) \<Rightarrow>
             (let r1 = skip_ws r
              in if r1 = [] \<or> hd r1 \<noteq> CHR '':'' then PErr
                 else case parse_value n (tl r1) of
                   POk v r2 \<Rightarrow>
                     (let r3 = skip_ws r2
                      in if r3 \<noteq> [] \<and> hd r3 = CHR '','' then parse_members n (acc @ [(k, v)]) (tl r3)
                         else if r3 \<noteq> [] \<and> hd r3 = CHR ''}'' then POk (JObj (acc @ [(k, v)])) (tl r3)
                         else PErr)
                 | PErr \<Rightarrow> PErr
                 | PFuel \<Rightarrow> PFuel))"

text \<open>\<open>JSON.parse(text)\<close>: one value, then only white space; \<open>None\<close> is the \<open>SyntaxError\<close>.\<close>

definition json_parse :: "string \<Rightarrow> json option" where
  "json_parse s =
     (case parse_value (2 * length s + 1) s of
        POk v r \<Rightarrow> (if skip_ws r = [] then Some v else None)
      | _ \<Rightarrow> None)"


text \<open>
  Whether a parser's result consumed input (\<open>POk\<close> with a shorter rest) or at least
  did not run out of fuel: the measure of the fuel bound.
\<close>

definition consumes :: "string \<Rightarrow> presult \<Rightarrow> bool" where
  "consumes s res = (case res of POk v r \<Rightarrow> length r < length s | PErr \<Rightarrow> True | PFuel \<Rightarrow> False)"

text \<open>
  The values \<open>JSON.stringify\<close> prints exactly: finite Numbers whose shortest decimal
  form has at most 17 significant digits (so that \<open>Number::toString\<close> loses nothing),
  and arrays and objects of such values.
\<close>

definition exact_num :: "jsnum \<Rightarrow> bool" where
  "exact_num x =
     (case x of
        Fin q \<Rightarrow> q = 0 \<or> List.find (\<lambda>k. is_int_rat (\<bar>q\<bar> * scale10 (int k - dec_exponent \<bar>q\<bar>))) [1..<18] \<noteq> None
      | _ \<Rightarrow> False)"

fun json_exact :: "json \<Rightarrow> bool" where
  "json_exact (JNum x) = exact_num x"
| "json_exact (JArr vs) = (\<forall>v \<in> set vs. json_exact v)"
| "json_exact (JObj kvs) = (\<forall>kv \<in> set kvs. json_exact (snd kv))"
| "json_exact _ = True"

section \<open>Lemmas: the parser's fuel suffices\<close>

lemma length_skip_ws: "length (skip_ws s) \<le> length s"
  by (simp add: skip_ws_def length_dropWhile_le)

lemma length_digits_span: "digits_span s = (ds, r) \<Longrightarrow> length r \<le> length s"
  by (auto simp: digits_span_def length_dropWhile_le)

lemma lex_frac_length: "lex_frac s = Some (fp, r) \<Longrightarrow> length r \<le> length s"
  by (auto simp: lex_frac_def digits_span_def Let_def split: if_splits
      intro: le_trans [OF length_dropWhile_le])

lemma lex_exp_length: "lex_exp s = Some (ep, r) \<Longrightarrow> length r \<le> length s"
  by (auto simp: lex_exp_def digits_span_def Let_def split: if_splits prod.splits
      intro: le_trans [OF length_dropWhile_le])

lemma dropWhile_shorter: "takeWhile P xs \<noteq> [] \<Longrightarrow> length (dropWhile P xs) < length xs"
  by (cases xs) (auto simp: le_imp_less_Suc length_dropWhile_le split: if_splits)

lemma lex_number_length:
  assumes "lex_number s = Some (lx, r)"
  shows "length r < length s"
proof -
  obtain sg r0 where sg: "(if s \<noteq> [] \<and> hd s = CHR ''-'' then (''-'', tl s) else ([], s)) = (sg, r0)"
    by fastforce
  then have r0: "length r0 \<le> length s" by (auto split: if_splits)
  let ?ip = "takeWhile is_digit r0" and ?r1 = "dropWhile is_digit r0"
  from assms sg obtain fp r2 ep where ip: "?ip \<noteq> []" and f: "lex_frac ?r1 = Some (fp, r2)"
      and e: "lex_exp r2 = Some (ep, r)"
    by (auto simp: lex_number_def digits_span_def Let_def split: if_splits option.splits)
  have "length r \<le> length ?r1" using lex_exp_length [OF e] lex_frac_length [OF f] by simp
  also have "\<dots> < length r0" using ip by (rule dropWhile_shorter)
  finally show ?thesis using r0 by simp
qed

lemma parse_str_length: "parse_str s = Some (t, r) \<Longrightarrow> length r < length s"
  by (induction s arbitrary: t r rule: parse_str.induct)
     (fastforce simp: cons_str_def split: if_splits option.splits)+


lemma consumes_simps [simp]:
  "consumes s (POk v r) \<longleftrightarrow> length r < length s" "consumes s PErr" "\<not> consumes s PFuel"
  by (simp_all add: consumes_def)

lemma consumes_mono: "consumes s' res \<Longrightarrow> length s' \<le> length s \<Longrightarrow> consumes s res"
  by (cases res) auto

lemma parse_value_step:
  assumes ih: "\<And>r acc macc. 2 * length r + 1 < n \<Longrightarrow>
                 consumes r (parse_elems n acc r) \<and> consumes r (parse_members n macc r)"
      and len: "2 * length s < Suc n"
  shows "consumes s (parse_value (Suc n) s)"
proof -
  let ?t = "skip_ws s"
  have ts: "length ?t \<le> length s" by (rule length_skip_ws)
  show ?thesis
  proof (cases "?t = []")
    case True then show ?thesis by simp
  next
    case ne: False
    let ?r = "skip_ws (tl ?t)"
    have r: "length ?r < length ?t" using ne length_skip_ws [of "tl ?t"] by (cases ?t) auto
    have rn: "2 * length ?r + 1 < n" using r ts len by linarith
    have str: "consumes s (case parse_str (tl ?t) of None \<Rightarrow> PErr | Some (str, r) \<Rightarrow> POk (JStr str) r)"
      using ne ts by (auto split: option.split dest!: parse_str_length)
    have num: "consumes s (case lex_number ?t of None \<Rightarrow> PErr | Some (lx, r) \<Rightarrow> POk (JNum (js_Number lx)) r)"
      using ts by (auto split: option.split dest!: lex_number_length)
    have arr: "consumes s (if ?r \<noteq> [] \<and> hd ?r = CHR '']'' then POk (JArr []) (tl ?r) else parse_elems n [] ?r)"
      using ih [OF rn] r ts consumes_mono [of ?r _ s] by (cases ?r) auto
    have obj: "consumes s (if ?r \<noteq> [] \<and> hd ?r = CHR ''}'' then POk (JObj []) (tl ?r) else parse_members n [] ?r)"
      using ih [OF rn] r ts consumes_mono [of ?r _ s] by (cases ?r) auto
    have lit: "k > 0 \<Longrightarrow> take k ?t = w \<Longrightarrow> length w = k \<Longrightarrow> consumes s (POk v (drop k ?t))" for k w v
      using ts by auto
    show ?thesis
      using ne str num arr obj lit [of 4 "''null''"] lit [of 4 "''true''"] lit [of 5 "''false''"]
      by (simp add: Let_def)
  qed
qed



lemma parse_elems_step:
  assumes ihv: "\<And>r. 2 * length r < n \<Longrightarrow> consumes r (parse_value n r)"
      and ihe: "\<And>r acc. 2 * length r + 1 < n \<Longrightarrow> consumes r (parse_elems n acc r)"
      and len: "2 * length s + 1 < Suc n"
  shows "consumes s (parse_elems (Suc n) acc s)"
proof (cases "parse_value n s")
  case (POk v r)
  have r: "length r < length s" using ihv [of s] len POk by simp
  let ?r' = "skip_ws r"
  have r': "length ?r' < length s" using r length_skip_ws [of r] by linarith
  have "consumes s (parse_elems n (acc @ [v]) (tl ?r'))" if "?r' \<noteq> []"
  proof -
    have "2 * length (tl ?r') + 1 < n" using r' len that by (cases ?r') auto
    then have "consumes (tl ?r') (parse_elems n (acc @ [v]) (tl ?r'))" by (rule ihe)
    then show ?thesis by (rule consumes_mono) (use r' in simp)
  qed
  with POk r' show ?thesis by (auto simp: Let_def)
next
  case PErr then show ?thesis by simp
next
  case PFuel then show ?thesis using ihv [of s] len by simp
qed

lemma parse_members_step:
  assumes ihv: "\<And>r. 2 * length r < n \<Longrightarrow> consumes r (parse_value n r)"
      and ihm: "\<And>r macc. 2 * length r + 1 < n \<Longrightarrow> consumes r (parse_members n macc r)"
      and len: "2 * length s + 1 < Suc n"
  shows "consumes s (parse_members (Suc n) macc s)"
proof -
  let ?t = "skip_ws s"
  have ts: "length ?t \<le> length s" by (rule length_skip_ws)
  show ?thesis
  proof (cases "?t = [] \<or> hd ?t \<noteq> CHR 0x22")
    case True then show ?thesis by simp
  next
    case q: False
    show ?thesis
    proof (cases "parse_str (tl ?t)")
      case None with q show ?thesis by simp
    next
      case (Some kr)
      obtain k r where kr: "kr = (k, r)" by fastforce
      have r: "length r < length s" using parse_str_length [of "tl ?t" k r] Some kr q ts by auto
      let ?r1 = "skip_ws r"
      have r1: "length ?r1 < length s" using r length_skip_ws [of r] by linarith
      have main: "consumes s (case parse_value n (tl ?r1) of
                   POk v r2 \<Rightarrow>
                     (let r3 = skip_ws r2
                      in if r3 \<noteq> [] \<and> hd r3 = CHR '','' then parse_members n (macc @ [(k, v)]) (tl r3)
                         else if r3 \<noteq> [] \<and> hd r3 = CHR ''}'' then POk (JObj (macc @ [(k, v)])) (tl r3)
                         else PErr)
                 | PErr \<Rightarrow> PErr
                 | PFuel \<Rightarrow> PFuel)" if ne1: "?r1 \<noteq> []"
      proof -
        have v: "consumes (tl ?r1) (parse_value n (tl ?r1))"
          by (rule ihv) (use r1 len ne1 in \<open>cases ?r1; auto\<close>)
        show ?thesis
        proof (cases "parse_value n (tl ?r1)")
          case (POk v r2)
          have r2: "length r2 < length ?r1" using v POk ne1 by (cases ?r1) auto
          let ?r3 = "skip_ws r2"
          have r3: "length ?r3 < length s" using r2 r1 length_skip_ws [of r2] by linarith
          have "consumes s (parse_members n (macc @ [(k, v)]) (tl ?r3))" if "?r3 \<noteq> []"
          proof -
            have "2 * length (tl ?r3) + 1 < n" using r3 len that by (cases ?r3) auto
            then have "consumes (tl ?r3) (parse_members n (macc @ [(k, v)]) (tl ?r3))" by (rule ihm)
            then show ?thesis by (rule consumes_mono) (use r3 in simp)
          qed
          with POk r3 show ?thesis by (auto simp: Let_def)
        next
          case PErr then show ?thesis by simp
        next
          case PFuel then show ?thesis using v by simp
        qed
      qed
      from q Some kr main show ?thesis by (auto simp: Let_def)
    qed
  qed
qed

lemma parse_fuel:
  "(\<forall>s. 2 * length s < n \<longrightarrow> consumes s (parse_value n s)) \<and>
   (\<forall>s acc. 2 * length s + 1 < n \<longrightarrow> consumes s (parse_elems n acc s)) \<and>
   (\<forall>s macc. 2 * length s + 1 < n \<longrightarrow> consumes s (parse_members n macc s))"
proof (induction n)
  case 0 then show ?case by simp
next
  case (Suc n)
  then have ihv: "\<And>r. 2 * length r < n \<Longrightarrow> consumes r (parse_value n r)"
    and ihe: "\<And>r acc. 2 * length r + 1 < n \<Longrightarrow> consumes r (parse_elems n acc r)"
    and ihm: "\<And>r macc. 2 * length r + 1 < n \<Longrightarrow> consumes r (parse_members n macc r)" by blast+
  show ?case
    using parse_value_step [of n] parse_elems_step [OF ihv ihe] parse_members_step [OF ihv ihm] ihe ihm
    by blast
qed


text \<open>
  Hence \<open>json_parse\<close>, which starts the parser with fuel \<open>2 * length s + 1\<close>, is
  \<open>JSON.parse\<close> on every input: it never stops for lack of fuel.
\<close>

lemma parse_value_total: "parse_value (2 * length s + 1) s \<noteq> PFuel"
proof -
  have "consumes s (parse_value (2 * length s + 1) s)" using parse_fuel [of "2 * length s + 1"] by simp
  then show ?thesis by (cases "parse_value (2 * length s + 1) s") auto
qed

end
