(* ===== verification/Json_Roundtrip.thy ===== *)
theory Json_Roundtrip
  imports Json
begin

text \<open>
  \<open>JSON.parse\<close> reads back what \<open>JSON.stringify\<close> writes. For numbers this is the
  round trip of \<open>Number::toString\<close> through \<open>Number\<close>: the printed string
  decomposes into integer digits, an optional fraction and an optional exponent
  (\<open>num_layout_ok\<close>), \<open>js_Number\<close> reads that decomposition as the printed value
  (\<open>js_Number_parts\<close>), and the JSON number lexer takes exactly the printed string
  (\<open>lex_number_parts\<close>). \<open>dec_exponent_bounds\<close> shows that the decimal exponent
  the printer computes is the right one. For strings, \<open>parse_str\<close> undoes each escape
  of \<open>QuoteJSONString\<close>.
\<close>

section \<open>Shapes of printed numbers\<close>

text \<open>
  A printed magnitude: integer digits \<open>ip\<close> (no leading zero unless \<open>ip = 0\<close>),
  fraction digits \<open>ds\<close> (printed after a point when there are any) and an exponent
  part that is empty or \<open>exp_suffix e\<close>; the characters such a string is made of; and
  what may follow a number in JSON text without being read as part of it.
\<close>

definition num_layout_ok :: "string \<Rightarrow> string \<Rightarrow> string \<Rightarrow> int \<Rightarrow> bool" where
  "num_layout_ok ip ds exs e \<longleftrightarrow>
     ip \<noteq> [] \<and> list_all is_digit ip \<and> list_all is_digit ds \<and>
     ((exs = [] \<and> e = 0) \<or> exs = exp_suffix e) \<and> (hd ip = CHR ''0'' \<longrightarrow> ip = ''0'')"

definition num_char :: "char \<Rightarrow> bool" where
  "num_char c \<longleftrightarrow> is_digit c \<or> c = CHR ''.'' \<or> c = CHR ''e'' \<or> c = CHR ''+'' \<or> c = CHR ''-''"

definition num_stop :: "string \<Rightarrow> bool" where
  "num_stop r \<longleftrightarrow> r = [] \<or> (\<not> is_digit (hd r) \<and> hd r \<noteq> CHR ''.'' \<and> \<not> is_exp_mark (hd r))"

section \<open>Lemmas\<close>

lemma scale10_powi: "scale10 e = 10 powi e"
proof (cases "0 \<le> e")
  case True then show ?thesis by (simp add: scale10_def power_int_def)
next
  case False
  then have "scale10 e = inverse (10 ^ nat (- e))" by (simp add: scale10_def inverse_eq_divide)
  also have "\<dots> = inverse 10 ^ nat (- e)" by (rule power_inverse [symmetric])
  finally show ?thesis using False by (simp add: power_int_def)
qed

lemma scale10_add: "scale10 (a + b) = scale10 a * scale10 b"
  by (simp add: scale10_powi power_int_add)

lemma scale10_0 [simp]: "scale10 0 = 1"
  by (simp add: scale10_def)

lemma scale10_nonzero [simp]: "scale10 e \<noteq> 0"
  by (simp add: scale10_def)

lemma scale10_pos: "0 < scale10 e"
  by (simp add: scale10_def)

lemma scale10_nat: "scale10 (int k) = 10 ^ k"
  by (simp add: scale10_def)

lemma digit_not_mark [simp]: "is_digit c \<Longrightarrow> \<not> is_exp_mark c" "is_digit c \<Longrightarrow> c \<noteq> CHR ''.''"
  by (auto simp: is_digit_def is_exp_mark_def)

lemma exponent_part_suffix: "exp_suffix e = CHR ''e'' # x \<Longrightarrow> exponent_part x = Some e"
  using nat_digits_facts [of "nat \<bar>e\<bar>"]
  by (auto simp: exp_suffix_def exponent_part_def digits_nat_nat_digits)

lemma not_mark_dot [simp]: "\<not> is_exp_mark CHR ''.''"
  by (simp add: is_exp_mark_def)

lemma unsigned_decimal_parts:
  assumes ip: "ip \<noteq> []" "list_all is_digit ip" and ds: "list_all is_digit ds"
      and fr: "fr = (if ds = [] then [] else CHR ''.'' # ds)"
      and ex: "(exs = [] \<and> e = 0) \<or> exs = exp_suffix e"
  shows "unsigned_decimal (ip @ fr @ exs) = Some (of_nat (digits_nat (ip @ ds)) * scale10 (e - int (length ds)))"
proof -
  have nd: "\<forall>c\<in>set (ip @ fr). \<not> is_exp_mark c" using ip ds fr by (auto simp: list_all_iff)
  have exs: "exs = [] \<or> (\<exists>x. exs = CHR ''e'' # x \<and> exponent_part x = Some e)"
    using ex exponent_part_suffix by (auto simp: exp_suffix_def)
  have m: "takeWhile (Not \<circ> is_exp_mark) (ip @ fr @ exs) = ip @ fr"
  proof -
    have "takeWhile (Not \<circ> is_exp_mark) (ip @ fr @ exs) = ip @ fr @ takeWhile (Not \<circ> is_exp_mark) exs"
      unfolding append_assoc [symmetric] by (rule takeWhile_append2) (use nd in auto)
    also have "takeWhile (Not \<circ> is_exp_mark) exs = []" using exs by (auto simp: is_exp_mark_def)
    finally show ?thesis by (simp add: comp_def)
  qed
  have d: "dropWhile (Not \<circ> is_exp_mark) (ip @ fr @ exs) = exs"
  proof -
    have "dropWhile (Not \<circ> is_exp_mark) (ip @ fr @ exs) = dropWhile (Not \<circ> is_exp_mark) exs"
      unfolding append_assoc [symmetric] by (rule dropWhile_append2) (use nd in auto)
    also have "\<dots> = exs" using exs by (auto simp: is_exp_mark_def)
    finally show ?thesis .
  qed
  have e: "(case exs of [] \<Rightarrow> Some 0 | _ # r \<Rightarrow> exponent_part r) = Some e"
    using exs ex by (auto simp: exp_suffix_def)
  have nodot: "\<forall>c\<in>set ip. c \<noteq> CHR ''.''" using ip by (auto simp: list_all_iff)
  have i: "takeWhile (\<lambda>c. c \<noteq> CHR ''.'') (ip @ fr) = ip"
    using nodot fr by (subst takeWhile_append2) auto
  have f: "drop 1 (dropWhile (\<lambda>c. c \<noteq> CHR ''.'') (ip @ fr)) = ds"
    using nodot fr by (subst dropWhile_append2) auto
  show ?thesis
    using ip ds unfolding unsigned_decimal_def Let_def m d e i f by simp
qed


lemma digits_nat_append: "digits_nat (xs @ ys) = digits_nat xs * 10 ^ length ys + digits_nat ys"
proof (induction ys rule: rev_induct)
  case Nil then show ?case by simp
next
  case (snoc y ys)
  have "digits_nat (xs @ ys @ [y]) = 10 * digits_nat (xs @ ys) + digit_val y"
    using digits_nat_snoc [of "xs @ ys" y] by simp
  with snoc show ?case by (simp add: digits_nat_snoc algebra_simps)
qed

lemma digits_nat_replicate_zero [simp]: "digits_nat (replicate z CHR ''0'') = 0"
  using digits_nat_zeros [of z "[]"] by simp

lemma is_digit_zero [simp]: "is_digit CHR ''0''"
  by (simp add: is_digit_def)

lemma layout_number_exp:
  assumes "\<not> (int (length s) \<le> n \<and> n \<le> 21)" "\<not> (0 < n \<and> n \<le> 21)" "\<not> (-6 < n \<and> n \<le> 0)"
  shows "layout_number s n =
           (if int (length s) = 1 then s @ exp_suffix (n - 1) else [hd s] @ CHR ''.'' # tl s @ exp_suffix (n - 1))"
  unfolding layout_number_def Let_def using assms by (simp only: if_False)

lemma layout_parts:
  assumes s: "s \<noteq> []" "list_all is_digit s" "hd s \<noteq> CHR ''0''"
  shows "\<exists>ip ds exs e. layout_number s n = ip @ (if ds = [] then [] else CHR ''.'' # ds) @ exs \<and>
           num_layout_ok ip ds exs e \<and>
           of_nat (digits_nat (ip @ ds)) * scale10 (e - int (length ds)) =
           (of_nat (digits_nat s) * scale10 (n - int (length s)) :: rat)"
proof -
  let ?k = "int (length s)"
  have hs: "hd (take j s) = hd s" if "0 < j" for j using s that by (cases s) auto
  have kpos: "0 < ?k" using s by simp
  consider (b1) "?k \<le> n \<and> n \<le> 21" | (b2) "\<not> (?k \<le> n \<and> n \<le> 21) \<and> 0 < n \<and> n \<le> 21"
    | (b3) "\<not> (?k \<le> n \<and> n \<le> 21) \<and> \<not> (0 < n \<and> n \<le> 21) \<and> -6 < n \<and> n \<le> 0"
    | (b4) "\<not> (?k \<le> n \<and> n \<le> 21) \<and> \<not> (0 < n \<and> n \<le> 21) \<and> \<not> (-6 < n \<and> n \<le> 0) \<and> ?k = 1"
    | (b5) "\<not> (?k \<le> n \<and> n \<le> 21) \<and> \<not> (0 < n \<and> n \<le> 21) \<and> \<not> (-6 < n \<and> n \<le> 0) \<and> ?k \<noteq> 1"
    by blast
  then show ?thesis
  proof cases
    case b1
    let ?ip = "s @ replicate (nat (n - ?k)) CHR ''0''"
    have "layout_number s n = ?ip @ (if [] = [] then [] else CHR ''.'' # []) @ []"
      using b1 by (simp add: layout_number_def)
    moreover have "num_layout_ok ?ip [] [] 0" using s by (cases s) (auto simp: num_layout_ok_def list_all_iff)
    moreover have "of_nat (digits_nat (?ip @ [])) * scale10 (0 - int (length [])) =
                   (of_nat (digits_nat s) * scale10 (n - ?k) :: rat)"
      using b1 by (simp add: digits_nat_append scale10_def)
    ultimately show ?thesis by blast
  next
    case b2
    let ?ip = "take (nat n) s" and ?ds = "drop (nat n) s"
    have ne: "?ds \<noteq> []" using b2 by (simp add: not_le) linarith
    have "layout_number s n = ?ip @ (if ?ds = [] then [] else CHR ''.'' # ?ds) @ []"
      using b2 ne by (simp add: layout_number_def Let_def)
    moreover have "num_layout_ok ?ip ?ds [] 0"
      using s b2 hs [of "nat n"] by (auto simp: num_layout_ok_def list_all_iff dest: in_set_takeD in_set_dropD)
    moreover have "of_nat (digits_nat (?ip @ ?ds)) * scale10 (0 - int (length ?ds)) =
                   (of_nat (digits_nat s) * scale10 (n - ?k) :: rat)"
    proof -
      have "- int (length s - nat n) = n - ?k" using b2 by linarith
      with b2 show ?thesis by simp
    qed
    ultimately show ?thesis by blast
  next
    case b3
    let ?ds = "replicate (nat (- n)) CHR ''0'' @ s"
    have "layout_number s n = ''0'' @ (if ?ds = [] then [] else CHR ''.'' # ?ds) @ []"
    proof -
      have "\<not> ?k \<le> n" using b3 kpos by linarith
      with b3 s show ?thesis by (simp add: layout_number_def Let_def)
    qed
    moreover have "num_layout_ok ''0'' ?ds [] 0"
      using s by (auto simp: num_layout_ok_def list_all_iff)
    moreover have "of_nat (digits_nat (''0'' @ ?ds)) * scale10 (0 - int (length ?ds)) =
                   (of_nat (digits_nat s) * scale10 (n - ?k) :: rat)"
    proof -
      have "digits_nat (''0'' @ ?ds) = digits_nat s"
        using digits_nat_zeros [of "Suc (nat (- n))" s] by simp
      moreover have "0 - int (length ?ds) = n - ?k" using b3 by simp
      ultimately show ?thesis by simp
    qed
    ultimately show ?thesis by blast
  next
    case b4
    have "layout_number s n = s @ (if [] = [] then [] else CHR ''.'' # []) @ exp_suffix (n - 1)"
      using b4 by (simp add: layout_number_exp)
    moreover have "num_layout_ok s [] (exp_suffix (n - 1)) (n - 1)"
      using s by (auto simp: num_layout_ok_def)
    moreover have "of_nat (digits_nat (s @ [])) * scale10 (n - 1 - int (length [])) =
                   (of_nat (digits_nat s) * scale10 (n - ?k) :: rat)"
      using b4 by simp
    ultimately show ?thesis by blast
  next
    case b5
    obtain c cs where cs: "s = c # cs" using s by (cases s) auto
    have ne: "cs \<noteq> []" using b5 cs by auto
    have "layout_number s n = [c] @ (if cs = [] then [] else CHR ''.'' # cs) @ exp_suffix (n - 1)"
      using b5 ne cs by (simp add: layout_number_exp)
    moreover have "num_layout_ok [c] cs (exp_suffix (n - 1)) (n - 1)"
      using s cs by (auto simp: num_layout_ok_def)
    moreover have "of_nat (digits_nat ([c] @ cs)) * scale10 (n - 1 - int (length cs)) =
                   (of_nat (digits_nat s) * scale10 (n - ?k) :: rat)"
      using cs by (simp add: algebra_simps)
    ultimately show ?thesis by blast
  qed
qed


lemma num_char_not_ws: "num_char c \<Longrightarrow> \<not> js_ws c"
  by (auto simp: num_char_def is_digit_def js_ws_def)

lemma js_trim_id: "\<forall>c\<in>set t. \<not> js_ws c \<Longrightarrow> js_trim t = t"
proof -
  assume a: "\<forall>c\<in>set t. \<not> js_ws c"
  then have "dropWhile js_ws t = t" by (cases t) auto
  moreover have "dropWhile js_ws (rev t) = rev t" using a by (cases "rev t") auto
  ultimately show ?thesis by (simp add: js_trim_def)
qed

lemma non_decimal_literal_num_chars:
  assumes "\<forall>c\<in>set t. num_char c"
  shows "non_decimal_literal t = None"
proof (cases t rule: remdups_adj.cases)
  case (3 c0 c1 ds)
  with assms have "num_char c1" by simp
  then have "\<not> (c1 = CHR ''x'' \<or> c1 = CHR ''X'' \<or> c1 = CHR ''o'' \<or> c1 = CHR ''O'' \<or> c1 = CHR ''b'' \<or> c1 = CHR ''B'')"
    by (auto simp: num_char_def is_digit_def)
  then show ?thesis using 3 by (simp add: non_decimal_literal_def)
qed (simp_all add: non_decimal_literal_def)

lemma num_layout_chars:
  assumes "num_layout_ok ip ds exs e" "fr = (if ds = [] then [] else CHR ''.'' # ds)"
  shows "\<forall>c\<in>set (ip @ fr @ exs). num_char c"
  using assms nat_digits_all_digits [of "nat \<bar>e\<bar>"]
  by (auto simp: num_layout_ok_def list_all_iff num_char_def exp_suffix_def)

lemma js_Number_parts:
  assumes ok: "num_layout_ok ip ds exs e" and fr: "fr = (if ds = [] then [] else CHR ''.'' # ds)"
  shows "js_Number (ip @ fr @ exs) = Fin (of_nat (digits_nat (ip @ ds)) * scale10 (e - int (length ds)))"
    and "js_Number (CHR ''-'' # ip @ fr @ exs) = Fin (- (of_nat (digits_nat (ip @ ds)) * scale10 (e - int (length ds))))"
proof -
  let ?t = "ip @ fr @ exs"
  have chars: "\<forall>c\<in>set ?t. num_char c" by (rule num_layout_chars [OF ok fr])
  have ud: "unsigned_decimal ?t = Some (of_nat (digits_nat (ip @ ds)) * scale10 (e - int (length ds)))"
    using ok fr by (intro unsigned_decimal_parts) (auto simp: num_layout_ok_def)
  obtain c u where cu: "?t = c # u" and dc: "is_digit c"
    using ok by (cases ip) (auto simp: num_layout_ok_def)
  have inf: "?t \<noteq> ''Infinity''" using cu dc by (auto simp: is_digit_def)
  have sg: "c \<noteq> CHR ''+'' \<and> c \<noteq> CHR ''-''" using dc by (auto simp: is_digit_def)
  have dl: "decimal_literal ?t = Some (Fin (of_nat (digits_nat (ip @ ds)) * scale10 (e - int (length ds))))"
    using cu sg inf ud by (simp add: decimal_literal_def unsigned_number_def)
  show "js_Number ?t = Fin (of_nat (digits_nat (ip @ ds)) * scale10 (e - int (length ds)))"
    using chars num_char_not_ws cu dl non_decimal_literal_num_chars [OF chars]
    by (simp add: js_Number_def js_trim_id)
  have chars': "\<forall>c\<in>set (CHR ''-'' # ?t). num_char c" using chars by (simp add: num_char_def)
  have "decimal_literal (CHR ''-'' # ?t) = Some (Fin (- (of_nat (digits_nat (ip @ ds)) * scale10 (e - int (length ds)))))"
    using inf ud by (simp add: decimal_literal_def unsigned_number_def)
  then show "js_Number (CHR ''-'' # ?t) = Fin (- (of_nat (digits_nat (ip @ ds)) * scale10 (e - int (length ds))))"
    using chars' num_char_not_ws non_decimal_literal_num_chars [OF chars']
    by (simp add: js_Number_def js_trim_id)
qed

lemma nat_digits_lower: "0 < f \<Longrightarrow> (10::nat) ^ (length (nat_digits f) - 1) \<le> f"
proof (induction f rule: nat_digits.induct)
  case (1 f)
  show ?case
  proof (cases "f < 10")
    case True then show ?thesis using 1 by (simp add: nat_digits.simps)
  next
    case False
    then have "0 < f div 10" by simp
    with 1 False have ih: "(10::nat) ^ (length (nat_digits (f div 10)) - 1) \<le> f div 10" by simp
    have "length (nat_digits f) - 1 = Suc (length (nat_digits (f div 10)) - 1)"
      using False nat_digits_nonempty [of "f div 10"] by (simp add: nat_digits.simps [of f])
    then have "(10::nat) ^ (length (nat_digits f) - 1) = 10 * 10 ^ (length (nat_digits (f div 10)) - 1)"
      by (simp only: power_Suc)
    also have "\<dots> \<le> 10 * (f div 10)" using ih by simp
    also have "\<dots> \<le> f" by simp
    finally show ?thesis .
  qed
qed

lemma nat_digits_upper: "f < 10 ^ length (nat_digits f)"
  using digits_nat_less [of "nat_digits f"] nat_digits_facts [of f] by simp


lemma scale10_neg: "scale10 (- int k) = 1 / 10 ^ k"
  by (cases "k = 0") (simp_all add: scale10_def)

lemma dec_exponent_ge1:
  assumes q: "1 \<le> q"
  shows "scale10 (dec_exponent q - 1) \<le> q \<and> q < scale10 (dec_exponent q)"
proof -
  define f where "f = nat \<lfloor>q\<rfloor>"
  define L where "L = length (nat_digits f)"
  have f0: "0 < f" using q by (simp add: f_def)
  have fi: "(of_nat f :: rat) = of_int \<lfloor>q\<rfloor>" using q by (simp add: f_def)
  have fq: "of_nat f \<le> q" "q < of_nat f + 1" unfolding fi using floor_correct [of q] by simp_all
  have L1: "1 \<le> L" using nat_digits_nonempty [of f] by (simp add: L_def Suc_le_eq)
  have lo: "(10::rat) ^ (L - 1) \<le> of_nat f"
    using nat_digits_lower [OF f0] unfolding L_def by (metis of_nat_le_iff of_nat_numeral of_nat_power)
  have hi: "of_nat f + 1 \<le> (10::rat) ^ L"
    using nat_digits_upper [of f] unfolding L_def by (metis Suc_leI of_nat_Suc of_nat_le_iff of_nat_numeral of_nat_power add.commute)
  have ql: "q < scale10 (int L)" using fq hi by (simp add: scale10_nat)
  have d: "dec_exponent q = int L"
    using q ql by (simp add: dec_exponent_def Let_def f_def [symmetric] L_def [symmetric] not_le)
  have "scale10 (int L - 1) = 10 ^ (L - 1)" using L1 by (simp add: scale10_def nat_diff_distrib)
  then show ?thesis using d ql order_trans [OF lo fq(1)] by simp
qed



lemma dec_exponent_lt1:
  assumes q0: "0 < q" and q1: "q < 1"
  shows "scale10 (dec_exponent q - 1) \<le> q \<and> q < scale10 (dec_exponent q)"
proof -
  define g where "g = nat \<lfloor>inverse q\<rfloor>"
  define L where "L = length (nat_digits g)"
  define n0 where "n0 = 1 - int L"
  have iq: "1 < inverse q" using q0 q1 by (simp add: one_less_inverse)
  have fl: "1 \<le> \<lfloor>inverse q\<rfloor>" using iq by (simp add: one_le_floor)
  have gi: "(of_nat g :: rat) = of_int \<lfloor>inverse q\<rfloor>"
    unfolding g_def using fl by (metis of_int_of_nat_eq int_nat_eq order_trans zero_le_one)
  have gq: "of_nat g \<le> inverse q" "inverse q < of_nat g + 1" unfolding gi using floor_correct [of "inverse q"] by simp_all
  have g0: "0 < g" using fl by (simp add: g_def)
  have L1: "1 \<le> L" using nat_digits_nonempty [of g] by (simp add: L_def Suc_le_eq)
  have lo: "(10::rat) ^ (L - 1) \<le> of_nat g"
    using nat_digits_lower [OF g0] unfolding L_def by (metis of_nat_le_iff of_nat_numeral of_nat_power)
  have hi: "of_nat g + 1 \<le> (10::rat) ^ L"
    using nat_digits_upper [of g] unfolding L_def by (metis Suc_leI of_nat_Suc of_nat_le_iff of_nat_numeral of_nat_power add.commute)
  have s0: "scale10 n0 = 1 / 10 ^ (L - 1)"
    using L1 scale10_neg [of "L - 1"] by (simp add: n0_def of_nat_diff)
  have s1: "scale10 (n0 - 1) = 1 / 10 ^ L"
    using scale10_neg [of L] by (simp add: n0_def)
  have up: "q \<le> scale10 n0"
  proof -
    have "q \<le> 1 / of_nat g" using gq(1) g0 q0 by (simp add: field_simps)
    also have "\<dots> \<le> 1 / 10 ^ (L - 1)" using lo by (simp add: frac_le)
    finally show ?thesis by (simp add: s0)
  qed
  have down: "scale10 (n0 - 1) < q"
  proof -
    have "1 / (10::rat) ^ L \<le> 1 / (of_nat g + 1)" using hi by (simp add: frac_le)
    also have "\<dots> < q" using gq(2) q0 by (simp add: field_simps)
    finally show ?thesis by (simp add: s1)
  qed
  have d: "dec_exponent q = (if scale10 n0 \<le> q then n0 + 1 else n0)"
    using q1 by (simp add: dec_exponent_def Let_def g_def [symmetric] L_def [symmetric] n0_def not_le)
  show ?thesis
  proof (cases "scale10 n0 \<le> q")
    case True
    then have "q = scale10 n0" using up by simp
    moreover have "scale10 (n0 + 1) = scale10 n0 * 10" using scale10_add [of n0 1] by (simp add: scale10_def [of 1])
    ultimately show ?thesis using True d scale10_pos [of n0] by simp
  next
    case False
    then show ?thesis using d down by simp
  qed
qed

lemma dec_exponent_bounds:
  "0 < q \<Longrightarrow> scale10 (dec_exponent q - 1) \<le> q \<and> q < scale10 (dec_exponent q)"
  using dec_exponent_ge1 [of q] dec_exponent_lt1 [of q] by (cases "1 \<le> q") simp_all


lemma hd_nat_digits_pos: "0 < m \<Longrightarrow> hd (nat_digits m) \<noteq> CHR ''0''"
proof
  assume m: "0 < m" and h: "hd (nat_digits m) = CHR ''0''"
  obtain cs where "nat_digits m = CHR ''0'' # cs"
    using h nat_digits_nonempty [of m] by (cases "nat_digits m") auto
  then have "nat_digits m = ''0''" using nat_digits_lead_zero by blast
  then have "digits_nat (nat_digits m) = 0" by (simp add: digit_val_def)
  with m show False by simp
qed

lemma scale10_diff_cancel: "q * scale10 a * scale10 (- a) = q"
  using scale10_add [of a "- a"] by (simp add: mult.assoc)

lemma pos_to_string_parts:
  assumes q: "0 < q" and fd: "List.find (\<lambda>k. is_int_rat (q * scale10 (int k - dec_exponent q))) [1..<18] \<noteq> None"
  shows "\<exists>ip ds exs e. pos_to_string q = ip @ (if ds = [] then [] else CHR ''.'' # ds) @ exs \<and>
           num_layout_ok ip ds exs e \<and> of_nat (digits_nat (ip @ ds)) * scale10 (e - int (length ds)) = q"
proof -
  define n where "n = dec_exponent q"
  define k where "k = sig_digits q n"
  have fk: "List.find (\<lambda>k. is_int_rat (q * scale10 (int k - n))) [1..<18] = Some k"
    using fd by (auto simp: k_def sig_digits_def n_def split: option.split)
  then have k1: "1 \<le> k" and ik: "is_int_rat (q * scale10 (int k - n))"
    by (auto simp: find_Some_iff)
  define x where "x = q * scale10 (int k - n)"
  define m where "m = nat \<lfloor>x\<rfloor>"
  have x0: "0 < x" using q scale10_pos [of "int k - n"] by (simp add: x_def)
  have xm: "of_nat m = x"
  proof -
    have "x = of_int \<lfloor>x\<rfloor>" using ik by (simp add: x_def is_int_rat_def)
    moreover have "0 \<le> \<lfloor>x\<rfloor>" using x0 by simp
    ultimately show ?thesis by (simp add: m_def)
  qed
  have b: "scale10 (n - 1) \<le> q" "q < scale10 n" using dec_exponent_bounds [OF q] by (simp_all add: n_def)
  have lo: "scale10 (int k - 1) \<le> x"
  proof -
    have "scale10 (int k - 1) = scale10 (n - 1) * scale10 (int k - n)" by (simp add: scale10_add [symmetric])
    then show ?thesis using b(1) scale10_pos [of "int k - n"] by (simp add: x_def)
  qed
  have hi: "x < scale10 (int k)"
  proof -
    have "scale10 (int k) = scale10 n * scale10 (int k - n)" by (simp add: scale10_add [symmetric])
    then show ?thesis using b(2) scale10_pos [of "int k - n"] by (simp add: x_def)
  qed
  have "(10::rat) ^ (k - 1) \<le> of_nat m" "of_nat m < (10::rat) ^ Suc (k - 1)"
    using lo hi k1 by (simp_all add: xm scale10_nat [symmetric] of_nat_diff)
  then have "10 ^ (k - 1) \<le> m" "m < 10 ^ Suc (k - 1)"
    by (metis of_nat_le_iff of_nat_numeral of_nat_power, metis of_nat_less_iff of_nat_numeral of_nat_power)
  then have len: "length (nat_digits m) = k" using k1 by (simp add: length_nat_digits)
  have m0: "0 < m" using xm x0 by simp
  have ps: "pos_to_string q = layout_number (nat_digits m) n"
    by (simp add: pos_to_string_def Let_def n_def [symmetric] k_def [symmetric] x_def [symmetric] m_def)
  obtain ip ds exs e where l: "layout_number (nat_digits m) n = ip @ (if ds = [] then [] else CHR ''.'' # ds) @ exs"
      and ok: "num_layout_ok ip ds exs e"
      and v: "of_nat (digits_nat (ip @ ds)) * scale10 (e - int (length ds)) =
              (of_nat (digits_nat (nat_digits m)) * scale10 (n - int (length (nat_digits m))) :: rat)"
    using layout_parts [of "nat_digits m" n] nat_digits_facts [of m] hd_nat_digits_pos [OF m0] by blast
  have "of_nat (digits_nat (ip @ ds)) * scale10 (e - int (length ds)) = q"
    using v len xm scale10_diff_cancel [of q "int k - n"] by (simp add: x_def)
  with ps l ok show ?thesis by (intro exI [of _ ip] exI [of _ ds] exI [of _ exs] exI [of _ e]) simp
qed


lemma num_to_string_parts:
  assumes "exact_num x"
  shows "\<exists>q sg ip ds exs e. x = Fin q \<and> num_to_string x = sg @ ip @ (if ds = [] then [] else CHR ''.'' # ds) @ exs \<and>
           num_layout_ok ip ds exs e \<and> (sg = [] \<or> sg = ''-'') \<and>
           js_Number (num_to_string x) = x"
proof -
  obtain q where x: "x = Fin q" using assms by (cases x) (auto simp: exact_num_def)
  consider "q = 0" | "0 < q" | "q < 0" by linarith
  then show ?thesis
  proof cases
    case 1
    have "num_layout_ok ''0'' [] [] 0" by (simp add: num_layout_ok_def)
    moreover have "js_Number ''0'' = Fin 0" by code_simp
    ultimately show ?thesis using 1 x
      by (intro exI [of _ q] exI [of _ "[]"] exI [of _ "''0''"] exI [of _ "[]"] exI [of _ "[]"] exI [of _ 0]) simp
  next
    case 2
    with assms x have fd: "List.find (\<lambda>k. is_int_rat (q * scale10 (int k - dec_exponent q))) [1..<18] \<noteq> None"
      by (simp add: exact_num_def)
    from pos_to_string_parts [OF 2 fd] obtain ip ds exs e where
      p: "pos_to_string q = ip @ (if ds = [] then [] else CHR ''.'' # ds) @ exs" and ok: "num_layout_ok ip ds exs e"
      and v: "of_nat (digits_nat (ip @ ds)) * scale10 (e - int (length ds)) = q" by blast
    have "js_Number (num_to_string x) = x" using 2 x p v js_Number_parts(1) [OF ok refl] by simp
    with 2 x p ok show ?thesis
      by (intro exI [of _ q] exI [of _ "[]"] exI [of _ ip] exI [of _ ds] exI [of _ exs] exI [of _ e]) simp
  next
    case 3
    then have q': "0 < - q" by simp
    with assms x 3 have fd: "List.find (\<lambda>k. is_int_rat (- q * scale10 (int k - dec_exponent (- q)))) [1..<18] \<noteq> None"
      by (simp add: exact_num_def)
    from pos_to_string_parts [OF q' fd] obtain ip ds exs e where
      p: "pos_to_string (- q) = ip @ (if ds = [] then [] else CHR ''.'' # ds) @ exs" and ok: "num_layout_ok ip ds exs e"
      and v: "of_nat (digits_nat (ip @ ds)) * scale10 (e - int (length ds)) = - q" by blast
    have "js_Number (num_to_string x) = x" using 3 x p v js_Number_parts(2) [OF ok refl] by simp
    with 3 x p ok show ?thesis
      by (intro exI [of _ q] exI [of _ "''-''"] exI [of _ ip] exI [of _ ds] exI [of _ exs] exI [of _ e]) simp
  qed
qed


lemma span_prefix:
  assumes "list_all P xs" and "ys = [] \<or> \<not> P (hd ys)"
  shows "takeWhile P (xs @ ys) = xs" "dropWhile P (xs @ ys) = ys"
  using assms by (induction xs; cases ys; auto)+

lemma lex_frac_parts:
  assumes "list_all is_digit ds" and "t = [] \<or> (\<not> is_digit (hd t) \<and> hd t \<noteq> CHR ''.'')"
  shows "lex_frac ((if ds = [] then [] else CHR ''.'' # ds) @ t) = Some (if ds = [] then [] else CHR ''.'' # ds, t)"
  using assms span_prefix [of is_digit ds t] by (auto simp: lex_frac_def digits_span_def)

lemma lex_exp_parts:
  assumes "(exs = [] \<and> e = 0) \<or> exs = exp_suffix e" and "num_stop rest"
  shows "lex_exp (exs @ rest) = Some (exs, rest)"
  using assms(1)
proof
  assume "exs = [] \<and> e = 0" then show ?thesis using assms(2) by (auto simp: lex_exp_def num_stop_def)
next
  assume ex: "exs = exp_suffix e"
  let ?sg = "if e < 0 then CHR ''-'' else CHR ''+''" and ?ds = "nat_digits (nat \<bar>e\<bar>)"
  have ds: "list_all is_digit ?ds" "?ds \<noteq> []" using nat_digits_facts [of "nat \<bar>e\<bar>"] by simp_all
  have r: "rest = [] \<or> \<not> is_digit (hd rest)" using assms(2) by (auto simp: num_stop_def)
  have "digits_span (?ds @ rest) = (?ds, rest)" using span_prefix [OF ds(1) r] by (simp add: digits_span_def)
  then show ?thesis using ex ds(2) by (simp add: lex_exp_def exp_suffix_def is_exp_mark_def Let_def)
qed

lemma lex_number_parts:
  assumes ok: "num_layout_ok ip ds exs e" and sg: "sg = [] \<or> sg = ''-''" and stop: "num_stop rest"
  shows "lex_number (sg @ ip @ (if ds = [] then [] else CHR ''.'' # ds) @ exs @ rest) =
           Some (sg @ ip @ (if ds = [] then [] else CHR ''.'' # ds) @ exs, rest)"
proof -
  let ?fr = "if ds = [] then [] else CHR ''.'' # ds"
  have ip: "ip \<noteq> []" "list_all is_digit ip" "list_all is_digit ds" "hd ip = CHR ''0'' \<longrightarrow> ip = ''0''"
    and ex: "(exs = [] \<and> e = 0) \<or> exs = exp_suffix e" using ok by (simp_all add: num_layout_ok_def)
  have hd_exs: "exs @ rest = [] \<or> (\<not> is_digit (hd (exs @ rest)) \<and> hd (exs @ rest) \<noteq> CHR ''.'')"
    using ex stop by (auto simp: exp_suffix_def num_stop_def is_digit_def)
  have tail: "?fr @ exs @ rest = [] \<or> \<not> is_digit (hd (?fr @ exs @ rest))"
    using hd_exs by (cases ds) (auto simp: is_digit_def)
  have span: "digits_span (ip @ ?fr @ exs @ rest) = (ip, ?fr @ exs @ rest)"
    using span_prefix [OF ip(2) tail] by (simp add: digits_span_def)
  have hip: "hd (ip @ ?fr @ exs @ rest) \<noteq> CHR ''-''" using ip(1,2) by (cases ip) (auto simp: is_digit_def)
  have lead: "\<not> (hd ip = CHR ''0'' \<and> tl ip \<noteq> [])" using ip(4) by auto
  have frac: "lex_frac (?fr @ exs @ rest) = Some (?fr, exs @ rest)" by (rule lex_frac_parts [OF ip(3) hd_exs])
  have expo: "lex_exp (exs @ rest) = Some (exs, rest)" by (rule lex_exp_parts [OF ex stop])
  from sg show ?thesis
  proof
    assume "sg = []"
    then show ?thesis using ip(1) hip span lead frac expo by (simp add: lex_number_def)
  next
    assume "sg = ''-''"
    then show ?thesis using ip(1) span lead frac expo by (simp add: lex_number_def)
  qed
qed


lemma radix_hex_digit: "d < 16 \<Longrightarrow> radix_digit 16 (hex_digit d) = Some d"
  by (auto simp: radix_digit_def hex_digit_def Let_def)

lemma char_of_controls:
  "char_of (8::nat) = CHR 0x08" "char_of (9::nat) = CHR 0x09" "char_of (10::nat) = CHR 0x0A"
  "char_of (12::nat) = CHR 0x0C" "char_of (13::nat) = CHR 0x0D" "char_of (34::nat) = CHR 0x22"
  "char_of (92::nat) = CHR 0x5C"
  by code_simp+

lemma parse_str_escape:
  assumes r: "r \<noteq> []"
  shows "parse_str (json_escape c @ r) = cons_str c (parse_str r)"
proof -
  define k where "k = (of_char c :: nat)"
  have c: "c = char_of k" by (simp add: k_def)
  have k256: "k < 256" by (simp add: k_def)
  obtain x r' where xr: "r = x # r'" using r by (cases r) auto
  consider "k = 8" | "k = 9" | "k = 10" | "k = 12" | "k = 13" | "k = 34" | "k = 92"
    | (ctl) "k < 32" "k \<notin> {8, 9, 10, 12, 13}" | (plain) "32 \<le> k" "k \<noteq> 34" "k \<noteq> 92"
    by fastforce
  then show ?thesis
  proof cases
    case ctl
    let ?h1 = "hex_digit (k div 16)" and ?h2 = "hex_digit (k mod 16)"
    have e: "json_escape c = [CHR 0x5C, CHR ''u'', CHR ''0'', CHR ''0'', ?h1, ?h2]"
      using ctl by (simp add: json_escape_def Let_def k_def [symmetric])
    have h: "radix_digit 16 ?h1 = Some (k div 16)" "radix_digit 16 ?h2 = Some (k mod 16)"
      using ctl by (simp_all add: radix_hex_digit)
    have z: "radix_digit 16 CHR ''0'' = Some 0" by (simp add: radix_digit_def)
    have "radix_val 16 0 [CHR ''0'', CHR ''0'', ?h1, ?h2] = Some (16 * (k div 16) + k mod 16)"
      by (simp add: h z)
    then have "radix_val 16 0 [CHR ''0'', CHR ''0'', ?h1, ?h2] = Some k" by simp
    moreover have "simple_escape CHR ''u'' = None" by (simp add: simple_escape_def)
    moreover have "CHR 0x5C \<noteq> CHR 0x22" by simp
    ultimately show ?thesis using ctl c unfolding e
      by (simp only: append_Cons append_Nil, subst parse_str.simps(3)) (simp del: parse_str.simps)
  next
    case plain
    have e: "json_escape c = [c]" using plain by (simp add: json_escape_def Let_def k_def [symmetric])
    have "c \<noteq> CHR 0x22" "c \<noteq> CHR 0x5C" "\<not> (of_char c :: nat) < 32" using plain by (auto simp: k_def)
    then show ?thesis unfolding e xr by (simp del: parse_str.simps add: parse_str.simps(3))
  qed (use c xr in \<open>simp_all add: json_escape_def Let_def simple_escape_def cons_str_def char_of_controls\<close>)
qed


lemma parse_str_quote: "parse_str (concat (map json_escape s) @ CHR 0x22 # rest) = Some (s, rest)"
proof (induction s)
  case Nil then show ?case by (cases rest) simp_all
next
  case (Cons c s)
  have "parse_str (json_escape c @ concat (map json_escape s) @ CHR 0x22 # rest) =
        cons_str c (parse_str (concat (map json_escape s) @ CHR 0x22 # rest))"
    by (rule parse_str_escape) simp
  with Cons show ?case by (simp add: cons_str_def)
qed


subsection \<open>Values\<close>

lemma skip_ws_Cons [simp]: "\<not> json_ws c \<Longrightarrow> skip_ws (c # r) = c # r"
  by (simp add: skip_ws_def)

lemma json_ws_lits [simp]:
  "\<not> json_ws CHR ''['' " "\<not> json_ws CHR '']''" "\<not> json_ws CHR ''{''" "\<not> json_ws CHR ''}''"
  "\<not> json_ws CHR '',''" "\<not> json_ws CHR '':''" "\<not> json_ws CHR 0x22" "\<not> json_ws CHR ''n''"
  "\<not> json_ws CHR ''t''" "\<not> json_ws CHR ''f''" "\<not> json_ws CHR ''-''"
  by (simp_all add: json_ws_def)

lemma digit_not_json_ws: "is_digit c \<Longrightarrow> \<not> json_ws c"
  by (auto simp: is_digit_def json_ws_def)

lemma num_stop_lits [simp]: "num_stop (CHR '']'' # r)" "num_stop (CHR ''}'' # r)" "num_stop (CHR '','' # r)" "num_stop []"
  by (simp_all add: num_stop_def is_digit_def is_exp_mark_def)

lemma num_to_string_hd:
  assumes "exact_num x"
  shows "\<exists>c t. num_to_string x = c # t \<and> (is_digit c \<or> c = CHR ''-'')"
proof -
  obtain q sg ip ds exs e where p: "num_to_string x = sg @ ip @ (if ds = [] then [] else CHR ''.'' # ds) @ exs"
    and ok: "num_layout_ok ip ds exs e" and sg: "sg = [] \<or> sg = ''-''"
    using num_to_string_parts [OF assms] by blast
  obtain d ip' where "ip = d # ip'" "is_digit d" using ok by (cases ip) (auto simp: num_layout_ok_def)
  with p sg show ?thesis by auto
qed

lemma parse_value_num:
  assumes "exact_num x" and "num_stop rest"
  shows "parse_value (Suc n) (num_to_string x @ rest) = POk (JNum x) rest"
proof -
  obtain q sg ip ds exs e where p: "num_to_string x = sg @ ip @ (if ds = [] then [] else CHR ''.'' # ds) @ exs"
    and ok: "num_layout_ok ip ds exs e" and sg: "sg = [] \<or> sg = ''-''" and v: "js_Number (num_to_string x) = x"
    using num_to_string_parts [OF assms(1)] by blast
  have lx: "lex_number (num_to_string x @ rest) = Some (num_to_string x, rest)"
    using lex_number_parts [OF ok sg assms(2)] p by simp
  obtain c t where ct: "num_to_string x = c # t" and c: "is_digit c \<or> c = CHR ''-''"
    using num_to_string_hd [OF assms(1)] by blast
  have nw: "\<not> json_ws c" using c digit_not_json_ws by auto
  have lits: "take 4 (c # t @ rest) \<noteq> ''null''" "take 4 (c # t @ rest) \<noteq> ''true''"
    "take 5 (c # t @ rest) \<noteq> ''false''" "c \<noteq> CHR 0x22" "c \<noteq> CHR ''[''" "c \<noteq> CHR ''{''"
    using c by (auto simp: is_digit_def)
  have "parse_value (Suc n) (c # t @ rest) = POk (JNum (js_Number (c # t))) rest"
    using lx nw lits ct by (simp add: Let_def del: parse_value.simps(1) add: parse_value.simps(2))
  then show ?thesis using ct v by simp
qed


lemma stringify_hd:
  assumes "json_exact j"
  shows "\<exists>c r. json_stringify j = c # r \<and> \<not> json_ws c \<and> c \<noteq> CHR '']'' \<and> c \<noteq> CHR ''}''"
proof (cases j)
  case (JNum x)
  then obtain c t where "num_to_string x = c # t" "is_digit c \<or> c = CHR ''-''" "x \<noteq> NaN" "\<not> is_inf x"
    using assms num_to_string_hd [of x] by (cases x) (auto simp: exact_num_def)
  with JNum show ?thesis using digit_not_json_ws [of c]
    by (cases x) (auto simp: json_number_def is_digit_def)
qed (simp_all add: json_quote_def)

lemma size_elems: "sum_list (map size vs) + length vs < size (JArr vs)"
  by (induction vs) auto

lemma size_members: "sum_list (map (size \<circ> snd) kvs) + length kvs < size (JObj kvs)"
  by (induction kvs) auto

lemma parse_elems_rt:
  assumes "\<And>v n rest. v \<in> set vs \<Longrightarrow> num_stop rest \<Longrightarrow> size v < n \<Longrightarrow>
             parse_value n (json_stringify v @ rest) = POk v rest"
      and "vs \<noteq> []" and "sum_list (map size vs) + length vs < n"
  shows "parse_elems n acc (join_with '','' (map json_stringify vs) @ CHR '']'' # rest) = POk (JArr (acc @ vs)) rest"
  using assms
proof (induction vs arbitrary: acc n)
  case Nil then show ?case by simp
next
  case (Cons v vs)
  obtain m where n: "n = Suc m" using Cons.prems(3) by (cases n) auto
  show ?case
  proof (cases "vs = []")
    case True
    have "parse_value m (json_stringify v @ CHR '']'' # rest) = POk v (CHR '']'' # rest)"
      using Cons.prems n True by (intro Cons.prems(1)) auto
    then show ?thesis using n True by (simp add: Let_def)
  next
    case False
    then obtain w ws where vs: "vs = w # ws" by (cases vs) auto
    let ?tail = "join_with '','' (map json_stringify vs) @ CHR '']'' # rest"
    have j: "join_with '','' (map json_stringify (v # vs)) @ CHR '']'' # rest = json_stringify v @ CHR '','' # ?tail"
      using vs by simp
    have pv: "parse_value m (json_stringify v @ CHR '','' # ?tail) = POk v (CHR '','' # ?tail)"
      using Cons.prems n by (intro Cons.prems(1)) auto
    have pe: "parse_elems m (acc @ [v]) ?tail = POk (JArr ((acc @ [v]) @ vs)) rest"
      using Cons.prems n False by (intro Cons.IH) auto
    show ?thesis unfolding j n using pv pe by (simp add: Let_def)
  qed
qed



lemma json_quote_Cons: "json_quote k @ rest = CHR 0x22 # (concat (map json_escape k) @ CHR 0x22 # rest)"
  by (simp add: json_quote_def)

lemma json_quote_parse:
  "parse_str (tl (json_quote k @ rest)) = Some (k, rest)" "json_quote k @ rest \<noteq> []"
  "hd (json_quote k @ rest) = CHR 0x22" "skip_ws (json_quote k @ rest) = json_quote k @ rest"
  by (simp_all add: json_quote_def parse_str_quote)

lemma parse_members_rt:
  assumes "\<And>k v n rest. (k, v) \<in> set kvs \<Longrightarrow> num_stop rest \<Longrightarrow> size v < n \<Longrightarrow>
             parse_value n (json_stringify v @ rest) = POk v rest"
      and "kvs \<noteq> []" and "sum_list (map (size \<circ> snd) kvs) + length kvs < n"
  shows "parse_members n macc
           (join_with '','' (map (\<lambda>(k, v). json_quote k @ CHR '':'' # json_stringify v) kvs) @ CHR ''}'' # rest) =
         POk (JObj (macc @ kvs)) rest"
  using assms
proof (induction kvs arbitrary: macc n)
  case Nil then show ?case by simp
next
  case (Cons kv kvs)
  obtain k v where kv: "kv = (k, v)" by fastforce
  obtain m where n: "n = Suc m" using Cons.prems(3) by (cases n) auto
  let ?tail = "join_with '','' (map (\<lambda>(k, v). json_quote k @ CHR '':'' # json_stringify v) kvs) @ CHR ''}'' # rest"
  let ?sep = "if kvs = [] then CHR ''}'' # rest else CHR '','' # ?tail"
  have j: "join_with '','' (map (\<lambda>(k, v). json_quote k @ CHR '':'' # json_stringify v) (kv # kvs)) @ CHR ''}'' # rest =
           json_quote k @ CHR '':'' # json_stringify v @ ?sep"
    using kv by (cases kvs) simp_all
  have pv: "parse_value m (json_stringify v @ ?sep) = POk v ?sep"
    using Cons.prems n kv by (intro Cons.prems(1) [of k]) auto
  have rest: "parse_members m (macc @ [(k, v)]) ?tail = POk (JObj ((macc @ [(k, v)]) @ kvs)) rest" if "kvs \<noteq> []"
    using Cons.prems n that kv by (intro Cons.IH) auto
  show ?case unfolding j n using pv rest kv json_quote_parse [of k "CHR '':'' # json_stringify v @ ?sep"]
    by (cases "kvs = []") (simp_all add: Let_def)
qed

lemma parse_stringify:
  "json_exact j \<Longrightarrow> num_stop rest \<Longrightarrow> size j < n \<Longrightarrow> parse_value n (json_stringify j @ rest) = POk j rest"
proof (induction j arbitrary: n rest)
  case JNull then show ?case by (cases n) simp_all
next
  case (JBool b) then show ?case by (cases n; cases b) simp_all
next
  case (JNum x)
  obtain m where n: "n = Suc m" using JNum.prems(3) by (cases n) auto
  obtain q where "x = Fin q" using JNum.prems(1) by (cases x) (auto simp: exact_num_def)
  then have eq: "json_stringify (JNum x) = num_to_string x" by (simp add: json_number_def)
  have "parse_value (Suc m) (num_to_string x @ rest) = POk (JNum x) rest"
    using JNum.prems by (intro parse_value_num) simp_all
  then show ?case by (simp only: n eq)
next
  case (JStr s) then show ?case by (cases n) (simp_all add: Let_def json_quote_Cons parse_str_quote)
next
  case (JArr vs)
  obtain m where n: "n = Suc m" using JArr.prems(3) by (cases n) auto
  show ?case
  proof (cases "vs = []")
    case True then show ?thesis using n by simp
  next
    case False
    then obtain v vs' where vs: "vs = v # vs'" by (cases vs) auto
    obtain c r where cr: "json_stringify v = c # r" "\<not> json_ws c" "c \<noteq> CHR '']''"
      using stringify_hd [of v] JArr.prems(1) vs by auto
    have body: "join_with '','' (map json_stringify vs) @ CHR '']'' # rest = c # (r @ drop (length (json_stringify v)) (join_with '','' (map json_stringify vs) @ CHR '']'' # rest))"
      using cr vs by (cases vs') simp_all
    have pe: "parse_elems m [] (join_with '','' (map json_stringify vs) @ CHR '']'' # rest) = POk (JArr vs) rest"
      using JArr False n size_elems [of vs] by (intro parse_elems_rt [where acc = "[]", simplified]) auto
    show ?thesis using pe n cr body by (simp add: Let_def)
  qed
next
  case (JObj kvs)
  obtain m where n: "n = Suc m" using JObj.prems(3) by (cases n) auto
  show ?case
  proof (cases "kvs = []")
    case True then show ?thesis using n by simp
  next
    case False
    then obtain k v kvs' where kvs: "kvs = (k, v) # kvs'" by (cases kvs) auto
    have ih: "parse_value n' (json_stringify v' @ rest') = POk v' rest'"
      if "(k', v') \<in> set kvs" "num_stop rest'" "size v' < n'" for k' v' n' rest'
      using JObj.IH [of "(k', v')" v'] JObj.prems(1) that by auto
    have pm: "parse_members m [] (join_with '','' (map (\<lambda>(k, v). json_quote k @ CHR '':'' # json_stringify v) kvs) @
                CHR ''}'' # rest) = POk (JObj kvs) rest"
      using ih False n size_members [of kvs] JObj.prems(3) by (intro parse_members_rt [where macc = "[]", simplified]) auto
    have hd: "join_with '','' (map (\<lambda>(k, v). json_quote k @ CHR '':'' # json_stringify v) kvs) @ CHR ''}'' # rest =
              CHR 0x22 # tl (join_with '','' (map (\<lambda>(k, v). json_quote k @ CHR '':'' # json_stringify v) kvs) @ CHR ''}'' # rest)"
      using kvs by (cases kvs') (simp_all add: json_quote_def)
    let ?B = "join_with '','' (map (\<lambda>(k, v). json_quote k @ CHR '':'' # json_stringify v) kvs) @ CHR ''}'' # rest"
    obtain t where Bt: "?B = CHR 0x22 # t" using hd by blast
    have st: "json_stringify (JObj kvs) @ rest = CHR ''{'' # ?B" by simp
    show ?thesis using pm n unfolding st Bt by (simp add: Let_def)
  qed
qed



lemma length_join_with:
  "length (join_with sep xs) + length sep = sum_list (map length xs) + length xs * length sep \<or> xs = []"
  by (induction sep xs rule: join_with.induct) auto

lemma length_json_quote: "length k + 2 \<le> length (json_quote k)"
proof -
  have "length k \<le> length (concat (map json_escape k))"
    by (induction k) (auto simp: json_escape_def Let_def)
  then show ?thesis by (simp add: json_quote_def)
qed

lemma size_list_members: "size_list (size_prod (\<lambda>x. 0) size) kvs = sum_list (map (\<lambda>kv. size (snd kv) + 2) kvs)"
  by (induction kvs) (auto simp: size_prod_simp)

lemma size_le_stringify: "size j \<le> length (json_stringify j)"
proof (induction j)
  case (JNum x) then show ?case by (cases x) (auto simp: json_number_def nat_digits_nonempty)
next
  case (JStr s) then show ?case using length_json_quote [of s] by simp
next
  case (JArr vs)
  have "sum_list (map size vs) \<le> sum_list (map (length \<circ> json_stringify) vs)"
    using JArr by (intro sum_list_mono) auto
  then show ?case using length_join_with [of "'',''" "map json_stringify vs"] by (cases "vs = []") (auto simp: size_list_conv_sum_list)
next
  case (JObj kvs)
  let ?m = "\<lambda>(k, v). json_quote k @ CHR '':'' # json_stringify v"
  have "size (snd kv) + 2 \<le> length (?m kv)" if "kv \<in> set kvs" for kv
    using JObj [of kv "snd kv"] that length_json_quote [of "fst kv"] by (cases kv) auto
  then have "sum_list (map (\<lambda>kv. size (snd kv) + 2) kvs) \<le> sum_list (map (length \<circ> ?m) kvs)"
    by (intro sum_list_mono) auto
  then show ?case using length_join_with [of "'',''" "map ?m kvs"] by (cases "kvs = []") (auto simp: size_list_members)
qed auto


lemma json_parse_stringify:
  assumes "json_exact j"
  shows "json_parse (json_stringify j) = Some j"
proof -
  have "size j < 2 * length (json_stringify j) + 1" using size_le_stringify [of j] by simp
  then have "parse_value (2 * length (json_stringify j) + 1) (json_stringify j @ []) = POk j []"
    using assms by (intro parse_stringify) simp_all
  then show ?thesis by (simp add: json_parse_def skip_ws_def)
qed

end
