(* ===== verification/Storage.thy ===== *)
theory Storage
  imports Json_Roundtrip
begin

text \<open>
  Persistence of \<open>src/www/app.js\<close> (\<open>save\<close>, lines 55--59): the browser's
  \<open>localStorage\<close> as a map from keys to strings, the key \<open>STORAGE_KEY\<close>, and \<open>save\<close>,
  whose write may fail (quota exceeded, storage disabled); the exception is caught and
  ignored, so a failed write leaves the store as it was. \<open>load\<close> (lines 46--53) reads
  the entry with \<open>JSON.parse\<close>: a missing or empty entry and a syntax error give the
  empty array; a parsed array of payment objects \<open>{id, amount, date}\<close> (keys in that
  order, an integer id, a number amount, a string date) gives that array; any other
  parsed value is installed as \<open>payments\<close> as it is, which the model records as
  \<open>Unrecognised\<close>.
\<close>

type_synonym local_storage = "string \<rightharpoonup> string"

definition STORAGE_KEY :: string where
  "STORAGE_KEY = ''loan-payment-tracker''"

text \<open>\<open>save()\<close>: \<open>ok\<close> says whether \<open>localStorage.setItem\<close> succeeds.\<close>

definition save :: "bool \<Rightarrow> payments \<Rightarrow> local_storage \<Rightarrow> local_storage" where
  "save ok ps st = (if ok then st(STORAGE_KEY \<mapsto> json_stringify (payments_json ps)) else st)"


text \<open>
  The result of \<open>load()\<close>: the array of payments, or a parsed JSON value that is not an
  array of payment objects and that the page then holds as \<open>payments\<close>.
\<close>

datatype loaded = Loaded payments | Unrecognised json

fun num_of :: "json \<Rightarrow> jsnum option" where
  "num_of (JNum x) = Some x"
| "num_of _ = None"

fun str_of :: "json \<Rightarrow> string option" where
  "str_of (JStr d) = Some d"
| "str_of _ = None"

definition decode_payment :: "json \<Rightarrow> payment option" where
  "decode_payment j =
     (case j of
        JObj kvs \<Rightarrow>
          (if map fst kvs = [''id'', ''amount'', ''date''] then
             (case (num_of (snd (kvs ! 0)), num_of (snd (kvs ! 1)), str_of (snd (kvs ! 2))) of
                (Some (Fin i), Some a, Some d) \<Rightarrow>
                  (if is_int_rat i then Some \<lparr>pid = \<lfloor>i\<rfloor>, amount = a, date = d\<rparr> else None)
              | _ \<Rightarrow> None)
           else None)
      | _ \<Rightarrow> None)"

fun decode_all :: "json list \<Rightarrow> payments option" where
  "decode_all [] = Some []"
| "decode_all (v # vs) =
     (case decode_payment v of None \<Rightarrow> None | Some p \<Rightarrow> map_option (Cons p) (decode_all vs))"

definition load :: "string option \<Rightarrow> loaded" where
  "load raw =
     (case raw of
        None \<Rightarrow> Loaded []
      | Some r \<Rightarrow>
          (if r = [] then Loaded []
           else case json_parse r of
                  None \<Rightarrow> Loaded []
                | Some j \<Rightarrow> (case j of
                              JArr vs \<Rightarrow> (case decode_all vs of Some ps \<Rightarrow> Loaded ps | None \<Rightarrow> Unrecognised j)
                            | _ \<Rightarrow> Unrecognised j)))"

text \<open>Payments that survive \<open>save\<close> and \<open>load\<close> exactly.\<close>

definition storable :: "payment \<Rightarrow> bool" where
  "storable p \<longleftrightarrow> \<bar>pid p\<bar> < 10 ^ 17 \<and> exact_num (amount p)"

section \<open>Lemmas\<close>

lemma dec_exponent_int_ge1:
  assumes "i \<noteq> 0"
  shows "1 \<le> dec_exponent \<bar>of_int i :: rat\<bar>"
proof (rule ccontr)
  let ?q = "\<bar>of_int i :: rat\<bar>" let ?n = "dec_exponent ?q"
  have q0: "0 < ?q" using assms by simp
  have b: "?q < scale10 ?n" using dec_exponent_bounds [OF q0] by simp
  assume "\<not> 1 \<le> ?n"
  then have "scale10 ?n \<le> 1" by (simp add: scale10_def)
  moreover have "1 \<le> ?q" using assms by simp
  ultimately show False using b by simp
qed


lemma dec_exponent_int_le17:
  assumes "i \<noteq> 0" and "\<bar>i\<bar> < 10 ^ 17"
  shows "dec_exponent \<bar>of_int i :: rat\<bar> \<le> 17"
proof (rule ccontr)
  let ?q = "\<bar>of_int i :: rat\<bar>" let ?n = "dec_exponent ?q"
  have q0: "0 < ?q" using assms by simp
  have b: "scale10 (?n - 1) \<le> ?q" using dec_exponent_bounds [OF q0] by simp
  assume "\<not> ?n \<le> 17"
  then have k: "17 \<le> nat (?n - 1)" by linarith
  have s: "scale10 (?n - 1) = 10 ^ nat (?n - 1)" using k by (simp add: scale10_def)
  have p: "(10::rat) ^ 17 \<le> 10 ^ nat (?n - 1)" using k by (rule power_increasing) simp
  have "(of_int \<bar>i\<bar> :: rat) < of_int (10 ^ 17)" using assms(2) by (simp only: of_int_less_iff)
  then have "?q < 10 ^ 17" by simp
  with b s p show False by simp
qed


lemma exact_int:
  assumes "\<bar>i\<bar> < 10 ^ 17"
  shows "exact_num (Fin (of_int i))"
proof (cases "i = 0")
  case False
  let ?q = "\<bar>of_int i :: rat\<bar>" let ?n = "dec_exponent ?q"
  have n: "1 \<le> ?n" "?n \<le> 17"
    using dec_exponent_int_ge1 [OF False] dec_exponent_int_le17 [OF False assms] by simp_all
  have gen: "nat m \<in> set [1..<18] \<and> int (nat m) - m = 0" if "1 \<le> m" "m \<le> 17" for m :: int
    using that by auto
  have mem: "nat ?n \<in> set [1..<18]" and z: "int (nat ?n) - ?n = 0" using gen [OF n] by simp_all
  have "is_int_rat (?q * scale10 (int (nat ?n) - ?n))"
    unfolding z by (simp add: is_int_rat_def)
  with mem have "List.find (\<lambda>k. is_int_rat (?q * scale10 (int k - ?n))) [1..<18] \<noteq> None"
    unfolding find_None_iff by blast
  then show ?thesis unfolding exact_num_def jsnum.case by blast
qed (simp add: exact_num_def)


lemma decode_payment_json [simp]: "decode_payment (payment_json p) = Some p"
  by (simp add: decode_payment_def payment_json_def is_int_rat_def)

lemma decode_all_json: "decode_all (map payment_json ps) = Some ps"
  by (induction ps) simp_all

lemma json_exact_payments: "\<forall>p \<in> set ps. storable p \<Longrightarrow> json_exact (payments_json ps)"
  by (auto simp: payments_json_def payment_json_def storable_def exact_int)

lemma save_stored: "save True ps st STORAGE_KEY = Some (json_stringify (payments_json ps))"
  by (simp add: save_def)

lemma stringify_payments_nonempty: "json_stringify (payments_json ps) \<noteq> []"
  by (simp add: payments_json_def)

lemma load_stringify:
  assumes "\<forall>p \<in> set ps. storable p"
  shows "load (Some (json_stringify (payments_json ps))) = Loaded ps"
proof -
  have "json_parse (json_stringify (payments_json ps)) = Some (payments_json ps)"
    using json_exact_payments [OF assms] by (rule json_parse_stringify)
  then show ?thesis
    by (simp add: load_def stringify_payments_nonempty payments_json_def decode_all_json)
qed

section \<open>Properties\<close>

text \<open>
  C22. Persisting the array and loading it again gives the same array (spec: round trip of
  persist and load), for payments whose id has at most 17 digits and whose amount
  \<open>Number::toString\<close> prints exactly.
\<close>

theorem save_load_roundtrip:
  assumes "\<forall>p \<in> set ps. storable p"
  shows "load (save True ps st STORAGE_KEY) = Loaded ps"
  using load_stringify [OF assms] by (simp add: save_stored)

theorem save_load_roundtrip_witness:
  "load (save True [\<lparr>pid = 1, amount = Fin 100, date = ''2024-01-15''\<rparr>] Map.empty STORAGE_KEY) =
   Loaded [\<lparr>pid = 1, amount = Fin 100, date = ''2024-01-15''\<rparr>]"
proof -
  have "exact_num (Fin 100)" by code_simp
  then show ?thesis by (intro save_load_roundtrip) (simp add: storable_def)
qed

text \<open>
  C23. A missing entry, an empty string and a text that is not JSON (\<open>JSON.parse\<close>
  throws, the exception is caught) all load as the empty array.
\<close>

theorem load_absent_or_invalid:
  "load None = Loaded [] \<and> load (Some []) = Loaded [] \<and> (json_parse r = None \<longrightarrow> load (Some r) = Loaded [])"
  by (simp add: load_def)

theorem load_absent_or_invalid_witness:
  "load (Some ''[{\"id\":1,'') = Loaded []"
proof -
  have "json_parse ''[{\"id\":1,'' = None" by code_simp
  then show ?thesis using load_absent_or_invalid [of "''[{\"id\":1,''"] by simp
qed

text \<open>
  C24. Stored text that is valid JSON but not an array of payment objects is not treated
  as empty: \<open>load\<close> installs the parsed value itself as \<open>payments\<close>, a value outside
  the payment model (for \<open>null\<close> or an object the next \<open>render\<close> throws).
\<close>

theorem load_keeps_non_array:
  assumes "json_parse r = Some j" and "\<forall>vs. j \<noteq> JArr vs"
  shows "load (Some r) = Unrecognised j"
proof -
  have "json_parse [] = None" by (simp add: json_parse_def skip_ws_def)
  with assms(1) have "r \<noteq> []" by auto
  with assms show ?thesis by (cases j) (simp_all add: load_def)
qed

theorem load_keeps_non_array_witness: "load (Some ''null'') = Unrecognised JNull"
proof -
  have "json_parse ''null'' = Some JNull" by code_simp
  then show ?thesis by (intro load_keeps_non_array) simp_all
qed

lemma infinite_amount_stored_as_null:
  "json_stringify (payments_json [\<lparr>pid = 1, amount = Inf True, date = []\<rparr>]) =
     ''[{\"id\":1,\"amount\":null,\"date\":\"\"}]'' \<and>
   load (Some ''[{\"id\":1,\"amount\":null,\"date\":\"\"}]'') =
     Unrecognised (JArr [JObj [(''id'', JNum (Fin 1)), (''amount'', JNull), (''date'', JStr [])]])"
  by code_simp

end
