(* ===== verification/Dates.thy ===== *)
theory Dates
  imports JsValue
begin

text \<open>
  Dates of \<open>src/www/app.js\<close>: the calendar arithmetic of ECMAScript's \<open>Date\<close> (the
  constructor \<open>new Date(y, m, d)\<close> and the getters \<open>getFullYear\<close>, \<open>getMonth\<close>,
  \<open>getDate\<close>, modelled from the language specification), then \<open>parseLocalDate\<close>,
  \<open>formatDate\<close>, \<open>toYMD\<close> and the date normalisation of the two form handlers.
  A \<open>Date\<close> at local midnight is its day number since 1970-01-01; the local time zone is
  taken as UTC, so that local midnight is a whole day number.
\<close>

section \<open>Calendar arithmetic (ECMAScript 21.4.1)\<close>

definition DayFromYear :: "int \<Rightarrow> int" where
  "DayFromYear y = 365 * (y - 1970) + (y - 1969) div 4 - (y - 1901) div 100 + (y - 1601) div 400"

definition is_leap :: "int \<Rightarrow> bool" where
  "is_leap y \<longleftrightarrow> y mod 4 = 0 \<and> (y mod 100 \<noteq> 0 \<or> y mod 400 = 0)"

definition days_in_year :: "int \<Rightarrow> int" where
  "days_in_year y = (if is_leap y then 366 else 365)"

text \<open>Days before month \<open>m\<close> (0-based, as \<open>getMonth\<close>) and the length of month \<open>m\<close>.\<close>

definition month_start :: "bool \<Rightarrow> nat \<Rightarrow> int" where
  "month_start leap m =
     [0, 31, 59, 90, 120, 151, 181, 212, 243, 273, 304, 334] ! m + (if leap \<and> 2 \<le> m then 1 else 0)"

definition days_in_month :: "bool \<Rightarrow> nat \<Rightarrow> int" where
  "days_in_month leap m =
     [31, 28, 31, 30, 31, 30, 31, 31, 30, 31, 30, 31] ! m + (if leap \<and> m = 1 then 1 else 0)"

text \<open>
  \<open>MakeDay(year, month, date)\<close>: the month may lie outside \<open>0..11\<close> and the date
  outside the month; both roll over into the following or preceding years and months.
\<close>

definition make_day :: "int \<Rightarrow> int \<Rightarrow> int \<Rightarrow> int" where
  "make_day y m d =
     (let ym = y + m div 12; mn = nat (m mod 12)
      in DayFromYear ym + month_start (is_leap ym) mn + d - 1)"

text \<open>
  \<open>YearFromTime\<close>: the largest year whose first day is at or before day \<open>t\<close>. Years
  repeat in cycles of 400 years and 146097 days; within the cycle that starts at 2000
  (day 10957), the year is found by a scan over at most 400 years.
\<close>

definition year_from_day :: "int \<Rightarrow> int" where
  "year_from_day t =
     (let q = (t - 10957) div 146097; r = (t - 10957) mod 146097
      in 2000 + 400 * q + int (scan_up (\<lambda>k. DayFromYear (2000 + int k) - 10957 \<le> r) 399 0))"

definition day_in_year :: "int \<Rightarrow> int" where
  "day_in_year t = t - DayFromYear (year_from_day t)"

text \<open>\<open>MonthFromTime\<close> (0-based) and \<open>DateFromTime\<close> (1-based).\<close>

definition month_from_day :: "int \<Rightarrow> nat" where
  "month_from_day t =
     scan_up (\<lambda>m. month_start (is_leap (year_from_day t)) m \<le> day_in_year t) 11 0"

definition date_from_day :: "int \<Rightarrow> int" where
  "date_from_day t = day_in_year t - month_start (is_leap (year_from_day t)) (month_from_day t) + 1"

section \<open>Lemmas on the calendar arithmetic\<close>

lemma div_succ: "1 < (n::int) \<Longrightarrow> (a + 1) div n = a div n + (if (a + 1) mod n = 0 then 1 else 0)"
proof -
  assume n: "1 < n"
  have "(a + 1) div n = a div n + 1 div n + (a mod n + 1 mod n) div n" by (rule div_add1_eq)
  also have "\<dots> = a div n + (a mod n + 1) div n" using n by simp
  also have "(a mod n + 1) div n = (if (a + 1) mod n = 0 then 1 else 0)"
  proof -
    have r: "0 \<le> a mod n" "a mod n < n" using n by simp_all
    have m: "(a + 1) mod n = (a mod n + 1) mod n" by (simp add: mod_add_left_eq)
    show ?thesis
    proof (cases "a mod n + 1 = n")
      case True then show ?thesis using m n by simp
    next
      case False
      with r have "a mod n + 1 < n" by simp
      with r m show ?thesis by simp
    qed
  qed
  finally show ?thesis .
qed

lemma div_shift: "0 < (n::int) \<Longrightarrow> (a + k * n) div n = a div n + k"
  by simp

lemma mod_shift: "(a + k * n) mod n = (a::int) mod n"
  by simp

lemma div_step:
  assumes "1 < n" and "(a + 1) mod n = (y::int) mod n"
  shows "(a + 1) div n = a div n + (if y mod n = 0 then 1 else 0)"
  using div_succ [OF assms(1), of a] assms(2) by simp

lemma mod_dvd_zero: "(d::int) dvd n \<Longrightarrow> y mod n = 0 \<Longrightarrow> y mod d = 0"
  by (simp add: dvd_eq_mod_eq_0 [symmetric]) (rule dvd_trans)

lemma days_in_year_eq:
  "days_in_year y = 365 + (if y mod 4 = 0 then 1 else 0) - (if y mod 100 = 0 then 1 else 0)
                        + (if y mod 400 = 0 then 1 else 0)"
proof (cases "y mod 400 = 0")
  case True
  moreover from True have "y mod 100 = 0" by (rule mod_dvd_zero [rotated]) simp
  moreover from True have "y mod 4 = 0" by (rule mod_dvd_zero [rotated]) simp
  ultimately show ?thesis by (simp add: days_in_year_def is_leap_def)
next
  case n400: False
  show ?thesis
  proof (cases "y mod 100 = 0")
    case True
    moreover from True have "y mod 4 = 0" by (rule mod_dvd_zero [rotated]) simp
    ultimately show ?thesis using n400 by (simp add: days_in_year_def is_leap_def)
  next
    case False
    with n400 show ?thesis by (simp add: days_in_year_def is_leap_def)
  qed
qed

lemma DayFromYear_Suc: "DayFromYear (y + 1) = DayFromYear y + days_in_year y"
proof -
  have d4: "(y + 1 - 1969) div 4 = (y - 1969) div 4 + (if y mod 4 = 0 then 1 else 0)"
  proof -
    have "y + 1 - 1969 = (y - 1969) + 1" "(y - 1969) + 1 = y + (-492) * 4" by simp_all
    then show ?thesis using div_step [of 4 "y - 1969" y] by (simp only: mod_shift; simp)
  qed
  have d100: "(y + 1 - 1901) div 100 = (y - 1901) div 100 + (if y mod 100 = 0 then 1 else 0)"
  proof -
    have "y + 1 - 1901 = (y - 1901) + 1" "(y - 1901) + 1 = y + (-19) * 100" by simp_all
    then show ?thesis using div_step [of 100 "y - 1901" y] by (simp only: mod_shift; simp)
  qed
  have d400: "(y + 1 - 1601) div 400 = (y - 1601) div 400 + (if y mod 400 = 0 then 1 else 0)"
  proof -
    have "y + 1 - 1601 = (y - 1601) + 1" "(y - 1601) + 1 = y + (-4) * 400" by simp_all
    then show ?thesis using div_step [of 400 "y - 1601" y] by (simp only: mod_shift; simp)
  qed
  define A where "A = (y - 1969) div 4"
  define B where "B = (y - 1901) div 100"
  define C where "C = (y - 1601) div 400"
  define a where "a = (if y mod 4 = 0 then 1 else (0::int))"
  define b where "b = (if y mod 100 = 0 then 1 else (0::int))"
  define c where "c = (if y mod 400 = 0 then 1 else (0::int))"
  have "DayFromYear (y + 1) = 365 * (y + 1 - 1970) + (A + a) - (B + b) + (C + c)"
    unfolding DayFromYear_def d4 d100 d400 A_def B_def C_def a_def b_def c_def ..
  moreover have "DayFromYear y = 365 * (y - 1970) + A - B + C"
    unfolding DayFromYear_def A_def B_def C_def ..
  moreover have "days_in_year y = 365 + a - b + c"
    unfolding days_in_year_eq a_def b_def c_def ..
  ultimately show ?thesis by simp
qed

lemma DayFromYear_cycles: "DayFromYear (y + 400 * q) = DayFromYear y + 146097 * q"
proof -
  have "y + 400 * q - 1969 = (y - 1969) + (100 * q) * 4"
       "y + 400 * q - 1901 = (y - 1901) + (4 * q) * 100"
       "y + 400 * q - 1601 = (y - 1601) + q * 400" by simp_all
  then have e: "(y + 400 * q - 1969) div 4 = (y - 1969) div 4 + 100 * q"
       "(y + 400 * q - 1901) div 100 = (y - 1901) div 100 + 4 * q"
       "(y + 400 * q - 1601) div 400 = (y - 1601) div 400 + q"
    by (simp_all only: div_shift)
  define A where "A = (y - 1969) div 4"
  define B where "B = (y - 1901) div 100"
  define C where "C = (y - 1601) div 400"
  have "DayFromYear (y + 400 * q) = 365 * (y + 400 * q - 1970) + (A + 100 * q) - (B + 4 * q) + (C + q)"
    unfolding DayFromYear_def e A_def B_def C_def ..
  moreover have "DayFromYear y = 365 * (y - 1970) + A - B + C"
    unfolding DayFromYear_def A_def B_def C_def ..
  ultimately show ?thesis by simp
qed

lemma days_in_year_ge: "365 \<le> days_in_year y"
  by (simp add: days_in_year_def)

lemma DayFromYear_add_nat: "DayFromYear y + 365 * int n \<le> DayFromYear (y + int n)"
proof (induction n)
  case 0
  then show ?case by simp
next
  case (Suc n)
  have "y + int (Suc n) = (y + int n) + 1" by simp
  then have "DayFromYear (y + int (Suc n)) = DayFromYear (y + int n) + days_in_year (y + int n)"
    by (simp only: DayFromYear_Suc)
  with Suc.IH days_in_year_ge [of "y + int n"] show ?case
    by simp
qed

lemma DayFromYear_strict_mono: "y < z \<Longrightarrow> DayFromYear y < DayFromYear z"
proof -
  assume "y < z"
  then obtain n where n: "z = y + int n" "0 < n"
    by (metis zless_iff_Suc_zadd zero_less_Suc)
  from DayFromYear_add_nat [of y n] n show ?thesis by simp
qed

lemma DayFromYear_mono: "y \<le> z \<Longrightarrow> DayFromYear y \<le> DayFromYear z"
  by (cases "y = z") (simp_all add: order_le_less DayFromYear_strict_mono)

lemma DayFromYear_2000 [simp]: "DayFromYear 2000 = 10957"
  by (simp add: DayFromYear_def)

lemma year_scan_bounds:
  assumes r: "0 \<le> r" "r < 146097"
  defines "K \<equiv> scan_up (\<lambda>k. DayFromYear (2000 + int k) - 10957 \<le> r) 399 0"
  shows "DayFromYear (2000 + int K) - 10957 \<le> r \<and> r < DayFromYear (2001 + int K) - 10957"
proof -
  let ?P = "\<lambda>k. DayFromYear (2000 + int k) - 10957 \<le> r"
  have "?P 0" using r by simp
  from scan_up_spec [of 0 399 ?P, OF _ this]
  have K: "K \<le> 399" "?P K" "K < 399 \<longrightarrow> \<not> ?P (Suc K)" unfolding K_def by auto
  have "r < DayFromYear (2001 + int K) - 10957"
  proof (cases "K < 399")
    case True
    with K have "\<not> ?P (Suc K)" by simp
    then show ?thesis by (simp add: add.commute)
  next
    case False
    with K have "K = 399" by simp
    moreover have "DayFromYear (2000 + 400 * 1) = DayFromYear 2000 + 146097 * 1"
      by (rule DayFromYear_cycles)
    ultimately show ?thesis using r by simp
  qed
  with K show ?thesis by simp
qed

text \<open>\<open>year_from_day\<close> computes ECMAScript's \<open>YearFromTime\<close>: the year whose first day is
  at or before \<open>t\<close> and whose successor's first day is after it.\<close>

lemma year_from_day_bounds:
  "DayFromYear (year_from_day t) \<le> t \<and> t < DayFromYear (year_from_day t + 1)"
proof -
  define q where "q = (t - 10957) div 146097"
  define r where "r = (t - 10957) mod 146097"
  define K where "K = scan_up (\<lambda>k. DayFromYear (2000 + int k) - 10957 \<le> r) 399 0"
  have t: "t = 10957 + 146097 * q + r" unfolding q_def r_def by simp
  have r: "0 \<le> r" "r < 146097" unfolding r_def by simp_all
  have y: "year_from_day t = (2000 + int K) + 400 * q"
    unfolding year_from_day_def q_def r_def K_def Let_def by simp
  have y1: "year_from_day t + 1 = (2001 + int K) + 400 * q" using y by simp
  from year_scan_bounds [OF r] have
    "DayFromYear (2000 + int K) - 10957 \<le> r \<and> r < DayFromYear (2001 + int K) - 10957"
    unfolding K_def by simp
  moreover have "DayFromYear (year_from_day t) = DayFromYear (2000 + int K) + 146097 * q"
    by (simp only: y DayFromYear_cycles)
  moreover have "DayFromYear (year_from_day t + 1) = DayFromYear (2001 + int K) + 146097 * q"
    by (simp only: y1 DayFromYear_cycles)
  ultimately show ?thesis using t by linarith
qed

lemma year_from_day_unique:
  assumes "DayFromYear y \<le> t" and "t < DayFromYear (y + 1)"
  shows "year_from_day t = y"
proof (rule ccontr)
  let ?Y = "year_from_day t"
  assume ne: "?Y \<noteq> y"
  from year_from_day_bounds [of t]
  have b: "DayFromYear ?Y \<le> t" "t < DayFromYear (?Y + 1)" by auto
  show False
  proof (cases "?Y < y")
    case True
    then have "DayFromYear (?Y + 1) \<le> DayFromYear y" by (simp add: DayFromYear_mono)
    with b assms show False by simp
  next
    case False
    with ne have "y + 1 \<le> ?Y" by simp
    then have "DayFromYear (y + 1) \<le> DayFromYear ?Y" by (rule DayFromYear_mono)
    with b assms show False by simp
  qed
qed

lemma month_start_Suc:
  "m < 11 \<Longrightarrow> month_start l (Suc m) = month_start l m + days_in_month l m"
  by (auto simp: month_start_def days_in_month_def less_Suc_eq numeral_eq_Suc)

lemma month_start_11: "month_start l 11 + days_in_month l 11 = (if l then 366 else 365)"
  by (simp add: month_start_def days_in_month_def)

lemma days_in_month_pos: "m < 12 \<Longrightarrow> 28 \<le> days_in_month l m"
  by (auto simp: days_in_month_def less_Suc_eq numeral_eq_Suc)

lemma month_start_mono: "i \<le> j \<Longrightarrow> j < 12 \<Longrightarrow> month_start l i \<le> month_start l j"
proof (induction j)
  case 0
  then show ?case by simp
next
  case (Suc j)
  show ?case
  proof (cases "i = Suc j")
    case True
    then show ?thesis by simp
  next
    case False
    with Suc.prems have "i \<le> j" "j < 11" by simp_all
    with Suc.IH month_start_Suc [of j l] days_in_month_pos [of j l] show ?thesis by simp
  qed
qed

lemma month_end_le_year:
  "m < 12 \<Longrightarrow> month_start l m + days_in_month l m \<le> (if l then 366 else 365)"
proof (cases "m = 11")
  case True
  then show ?thesis by (simp add: month_start_11)
next
  case False
  assume "m < 12"
  with False have "m < 11" by simp
  then have "month_start l (Suc m) \<le> month_start l 11" by (intro month_start_mono) simp_all
  with \<open>m < 11\<close> month_start_Suc [of m l] month_start_11 [of l] days_in_month_pos [of 11 l]
  show ?thesis by simp
qed

text \<open>The getters invert \<open>make_day\<close> on a valid calendar date: month \<open>m\<close> in \<open>0..11\<close>,
  day \<open>d\<close> within the month.\<close>

lemma getters_make_day:
  assumes m: "m < 12" and d: "1 \<le> d" "d \<le> days_in_month (is_leap y) m"
  defines "t \<equiv> DayFromYear y + month_start (is_leap y) m + d - 1"
  shows "year_from_day t = y \<and> month_from_day t = m \<and> date_from_day t = d"
proof -
  let ?l = "is_leap y"
  have ms0: "0 \<le> month_start ?l m" using month_start_mono [of 0 m ?l] m
    by (simp add: month_start_def)
  have "month_start ?l m + days_in_month ?l m \<le> days_in_year y"
    using month_end_le_year [OF m, of ?l] by (simp add: days_in_year_def)
  then have lt: "t < DayFromYear (y + 1)" using d by (simp add: t_def DayFromYear_Suc)
  have "DayFromYear y \<le> t" using ms0 d by (simp add: t_def)
  from this lt have Y: "year_from_day t = y" by (rule year_from_day_unique)
  have dy: "day_in_year t = month_start ?l m + d - 1" unfolding day_in_year_def Y by (simp add: t_def)
  have "scan_up (\<lambda>k. month_start ?l k \<le> month_start ?l m + d - 1) 11 0 = m"
  proof (rule scan_up_unique)
    show "0 \<le> m" "m \<le> 11" using m by simp_all
    show "\<forall>i. 0 < i \<and> i \<le> m \<longrightarrow> month_start ?l i \<le> month_start ?l m + d - 1"
      using month_start_mono [of _ m ?l] m d by fastforce
    show "m < 11 \<longrightarrow> \<not> month_start ?l (Suc m) \<le> month_start ?l m + d - 1"
      using month_start_Suc [of m ?l] d by simp
  qed
  then have M: "month_from_day t = m" by (simp add: month_from_day_def Y dy)
  show ?thesis using Y M dy by (simp add: date_from_day_def)
qed

text \<open>Conversely every day is \<open>make_day\<close> of its getters.\<close>

lemma make_day_getters:
  "make_day (year_from_day t) (int (month_from_day t)) (date_from_day t) = t"
proof -
  have "month_from_day t \<le> 11"
    using scan_up_spec [of 0 11 "\<lambda>m. month_start (is_leap (year_from_day t)) m \<le> day_in_year t"]
      year_from_day_bounds [of t]
    by (simp add: month_from_day_def day_in_year_def month_start_def)
  then show ?thesis
    by (simp add: make_day_def date_from_day_def day_in_year_def)
qed

lemma make_day_in_year:
  "0 \<le> m \<Longrightarrow> m < 12 \<Longrightarrow> make_day y m d = DayFromYear y + month_start (is_leap y) (nat m) + d - 1"
  by (simp add: make_day_def)

section \<open>The JavaScript \<open>Date\<close> object\<close>

text \<open>A \<open>Date\<close> is invalid (\<open>isNaN(d.getTime())\<close>) or a day number.\<close>

datatype jsdate = InvalidDate | DateDay int

text \<open>
  \<open>new Date(y, m, d)\<close>: a year in \<open>0..99\<close> means \<open>1900 + y\<close>; then \<open>MakeDay\<close>,
  and \<open>TimeClip\<close> makes the date invalid beyond \<open>8.64e15\<close> ms, that is beyond
  \<open>10^8\<close> days from the epoch.
\<close>

definition new_Date :: "int \<Rightarrow> int \<Rightarrow> int \<Rightarrow> jsdate" where
  "new_Date y m d =
     (let yr = (if 0 \<le> y \<and> y \<le> 99 then 1900 + y else y); t = make_day yr m d
      in if \<bar>t\<bar> \<le> 100000000 then DateDay t else InvalidDate)"

definition is_date_sep :: "char \<Rightarrow> bool" where
  "is_date_sep c \<longleftrightarrow> c = CHR ''-'' \<or> c = CHR ''/''"

text \<open>\<open>parseLocalDate(ymdStr)\<close>, lines 61--74; \<open>None\<close> is \<open>null\<close>.\<close>

definition parseLocalDate :: "string \<Rightarrow> jsdate option" where
  "parseLocalDate ymdStr =
     (if ymdStr = [] \<or> length ymdStr < 10 then None
      else
        let s = take 10 (js_trim ymdStr);
            parts = split_on is_date_sep s
        in if length parts \<noteq> 3 then None
           else case (parseInt10 (parts ! 0), parseInt10 (parts ! 1), parseInt10 (parts ! 2)) of
                  (Some n0, Some n1, Some n2) \<Rightarrow>
                    Some (if length (parts ! 0) = 4 then new_Date n0 (n1 - 1) n2
                          else new_Date n2 (n1 - 1) n0)
                | _ \<Rightarrow> None)"

definition pad2 :: "int \<Rightarrow> string" where
  "pad2 n = pad_start 2 CHR ''0'' (int_str n)"

text \<open>\<open>toYMD(date)\<close>, lines 87--93: \<open>''\<close> for \<open>null\<close> or an invalid date.\<close>

fun toYMD :: "jsdate option \<Rightarrow> string" where
  "toYMD (Some (DateDay t)) =
     int_str (year_from_day t) @ ''-'' @ pad2 (int (month_from_day t) + 1) @ ''-'' @ pad2 (date_from_day t)"
| "toYMD (Some InvalidDate) = []"
| "toYMD None = []"

text \<open>\<open>d.toLocaleDateString('en-GB', {day: '2-digit', month: '2-digit', year: 'numeric'})\<close>.\<close>

definition en_GB_date :: "int \<Rightarrow> string" where
  "en_GB_date t =
     pad2 (date_from_day t) @ ''/'' @ pad2 (int (month_from_day t) + 1) @ ''/'' @ int_str (year_from_day t)"

text \<open>\<open>formatDate(str)\<close>, lines 76--81, and its alias \<open>formatDisplayDate\<close>, lines 83--85.\<close>

definition formatDate :: "string \<Rightarrow> string" where
  "formatDate str =
     (if str = [] then []
      else case parseLocalDate str of Some (DateDay t) \<Rightarrow> en_GB_date t | _ \<Rightarrow> str)"

definition formatDisplayDate :: "string \<Rightarrow> string" where
  "formatDisplayDate str = formatDate str"

text \<open>\<open>getTodayYMD()\<close>, lines 95--97, on the current local day \<open>today\<close>.\<close>

definition getTodayYMD :: "int \<Rightarrow> string" where
  "getTodayYMD today = toYMD (Some (DateDay today))"

text \<open>The test \<open>/^\d{4}-\d{2}-\d{2}$/\<close>.\<close>

fun ymd_pattern :: "string \<Rightarrow> bool" where
  "ymd_pattern [y1, y2, y3, y4, s1, m1, m2, s2, d1, d2] =
     (list_all is_digit [y1, y2, y3, y4, m1, m2, d1, d2] \<and> s1 = CHR ''-'' \<and> s2 = CHR ''-'')"
| "ymd_pattern _ = False"

text \<open>
  The date normalisation of the add and edit submit handlers (lines 292--299 and
  332--338): the picker's value, or else the typed text trimmed; a date that parses to a
  valid \<open>Date\<close> is stored as \<open>toYMD\<close>, otherwise a string of the form
  \<open>YYYY-MM-DD\<close> is kept as typed, otherwise the date is empty.
\<close>

definition form_date :: "string \<Rightarrow> string \<Rightarrow> string" where
  "form_date native typed =
     (let date = (if native \<noteq> [] then native else js_trim typed)
      in if date = [] then []
         else case parseLocalDate date of
                Some (DateDay t) \<Rightarrow> toYMD (Some (DateDay t))
              | _ \<Rightarrow> (if ymd_pattern (take 10 date) then take 10 date else []))"

text \<open>\<open>syncDateToDisplay\<close>, lines 171--179: the text shown for a picked value.\<close>

definition syncDateToDisplay :: "string \<Rightarrow> string" where
  "syncDateToDisplay val =
     (if val = [] then []
      else case parseLocalDate val of
             Some d \<Rightarrow> formatDisplayDate (toYMD (Some d))
           | None \<Rightarrow> val)"

section \<open>Lemmas on parsing and printing dates\<close>

lemma pad2_facts:
  "0 \<le> n \<Longrightarrow> n < 100 \<Longrightarrow>
   length (pad2 n) = 2 \<and> list_all is_digit (pad2 n) \<and> pad2 n \<noteq> [] \<and> int (digits_nat (pad2 n)) = n"
proof -
  assume n: "0 \<le> n" "n < 100"
  have "length (nat_digits (nat n)) \<le> 2"
  proof (cases "n < 10")
    case True
    then have "nat n < 10" using n by simp
    then show ?thesis by (simp add: nat_digits.simps [of "nat n"])
  next
    case False
    then show ?thesis using length_nat_digits [of 1 "nat n"] n by simp
  qed
  then have "length (pad2 n) = 2" using n by (simp add: pad2_def pad_start_def int_str_nonneg)
  with pad_start_digits [OF n(1), of 2] show ?thesis by (simp add: pad2_def)
qed

lemma year_str_facts:
  "1000 \<le> y \<Longrightarrow> y \<le> 9999 \<Longrightarrow>
   length (int_str y) = 4 \<and> list_all is_digit (int_str y) \<and> int_str y \<noteq> [] \<and> int (digits_nat (int_str y)) = y"
  using length_nat_digits [of 3 "nat y"] digit_string_int_str [of y]
  by (simp add: int_str_nonneg)

lemma digits_no_sep: "list_all is_digit xs \<Longrightarrow> \<forall>c \<in> set xs. \<not> is_date_sep c"
  by (auto simp: list_all_iff is_digit_def is_date_sep_def)

lemma split_three:
  assumes "list_all is_digit a" "list_all is_digit b" "list_all is_digit c"
      and "is_date_sep s1" "is_date_sep s2"
  shows "split_on is_date_sep (a @ s1 # b @ s2 # c) = [a, b, c]"
  using assms by (simp add: split_on_append_sep split_on_no_sep digits_no_sep)

lemma parse_three_fields:
  assumes dig: "list_all is_digit a" "list_all is_digit b" "list_all is_digit c"
      and ne: "a \<noteq> []" "b \<noteq> []" "c \<noteq> []"
      and sep: "is_date_sep s1" "is_date_sep s2"
      and len: "length a + length b + length c = 8"
  shows "parseLocalDate (a @ s1 # b @ s2 # c) =
           Some (if length a = 4
                 then new_Date (int (digits_nat a)) (int (digits_nat b) - 1) (int (digits_nat c))
                 else new_Date (int (digits_nat c)) (int (digits_nat b) - 1) (int (digits_nat a)))"
proof -
  let ?s = "a @ s1 # b @ s2 # c"
  have l: "length ?s = 10" using len by simp
  have hd: "\<not> js_ws (hd ?s)" using dig(1) ne(1) by (cases a) (auto simp: not_ws_digit)
  have "last ?s = last c" using ne(3) by simp
  then have lst: "\<not> js_ws (last ?s)" using dig(3) ne(3) by (simp add: list_all_iff not_ws_digit)
  have tr: "take 10 (js_trim ?s) = ?s"
    using js_trim_digits [OF _ hd lst] l by simp
  have sp: "split_on is_date_sep ?s = [a, b, c]"
    using split_three [OF dig sep] .
  show ?thesis
    using l tr sp ne by (simp add: parseLocalDate_def parseInt10_digits dig)
qed

lemma days_in_month_le: "m < 12 \<Longrightarrow> days_in_month l m \<le> 31"
  by (auto simp: days_in_month_def less_Suc_eq numeral_eq_Suc)

lemma month_start_range: "m < 12 \<Longrightarrow> 0 \<le> month_start l m \<and> month_start l m \<le> 335"
  by (auto simp: month_start_def less_Suc_eq numeral_eq_Suc)

lemma make_day_range:
  assumes "-1 \<le> y + m div 12" "y + m div 12 \<le> 10008" "-1 \<le> d" "d \<le> 100"
  shows "\<bar>make_day y m d\<bar> \<le> 100000000"
proof -
  let ?ym = "y + m div 12"
  have "DayFromYear (-1) \<le> DayFromYear ?ym" using assms(1) by (rule DayFromYear_mono)
  moreover have "DayFromYear ?ym \<le> DayFromYear 10008" using assms(2) by (rule DayFromYear_mono)
  moreover have "-99999000 \<le> DayFromYear (-1)" "DayFromYear 10008 \<le> 99999000"
    by (simp_all add: DayFromYear_def)
  moreover have "nat (m mod 12) < 12" by simp
  then have "0 \<le> month_start (is_leap ?ym) (nat (m mod 12))"
            "month_start (is_leap ?ym) (nat (m mod 12)) \<le> 335"
    using month_start_range by blast+
  moreover have "make_day y m d = DayFromYear ?ym + month_start (is_leap ?ym) (nat (m mod 12)) + d - 1"
    by (simp add: make_day_def Let_def)
  ultimately show ?thesis using assms(3,4) by linarith
qed

definition ymd_str :: "int \<Rightarrow> int \<Rightarrow> int \<Rightarrow> string" where
  "ymd_str y m d = int_str y @ ''-'' @ pad2 m @ ''-'' @ pad2 d"

definition valid_ymd :: "int \<Rightarrow> int \<Rightarrow> int \<Rightarrow> bool" where
  "valid_ymd y m d \<longleftrightarrow>
     1000 \<le> y \<and> y \<le> 9999 \<and> 1 \<le> m \<and> m \<le> 12 \<and> 1 \<le> d \<and> d \<le> days_in_month (is_leap y) (nat (m - 1))"

lemma valid_ymd_bounds:
  "valid_ymd y m d \<Longrightarrow> 1000 \<le> y \<and> y \<le> 9999 \<and> 1 \<le> m \<and> m \<le> 12 \<and> nat (m - 1) < 12 \<and> 1 \<le> d \<and> d \<le> 31"
proof -
  assume v: "valid_ymd y m d"
  then have m: "1 \<le> m" "m \<le> 12" by (simp_all add: valid_ymd_def)
  then have "nat (m - 1) < 12" by (simp add: nat_less_iff)
  with v m days_in_month_le [of "nat (m - 1)" "is_leap y"] show ?thesis
    by (auto simp: valid_ymd_def)
qed

lemma valid_ymd_new_Date:
  assumes "valid_ymd y m d"
  shows "new_Date y (m - 1) d = DateDay (DayFromYear y + month_start (is_leap y) (nat (m - 1)) + d - 1)"
proof -
  from valid_ymd_bounds [OF assms]
  have v: "1000 \<le> y" "y \<le> 9999" "0 \<le> m - 1" "m - 1 < 12" "1 \<le> d" "d \<le> 31" by auto
  then have "(m - 1) div 12 = 0" by simp
  with v have "\<bar>make_day y (m - 1) d\<bar> \<le> 100000000" by (intro make_day_range) simp_all
  with v show ?thesis by (simp add: new_Date_def make_day_in_year)
qed

lemma valid_ymd_fields:
  "valid_ymd y m d \<Longrightarrow>
   length (int_str y) = 4 \<and> list_all is_digit (int_str y) \<and> int_str y \<noteq> [] \<and> int (digits_nat (int_str y)) = y \<and>
   length (pad2 m) = 2 \<and> list_all is_digit (pad2 m) \<and> pad2 m \<noteq> [] \<and> int (digits_nat (pad2 m)) = m \<and>
   length (pad2 d) = 2 \<and> list_all is_digit (pad2 d) \<and> pad2 d \<noteq> [] \<and> int (digits_nat (pad2 d)) = d"
  using year_str_facts [of y] pad2_facts [of m] pad2_facts [of d] valid_ymd_bounds [of y m d]
  by auto

lemma parse_ymd_str:
  assumes "valid_ymd y m d"
  shows "parseLocalDate (ymd_str y m d) =
           Some (DateDay (DayFromYear y + month_start (is_leap y) (nat (m - 1)) + d - 1))"
proof -
  note f = valid_ymd_fields [OF assms]
  have "is_date_sep (CHR ''-'')" by (simp add: is_date_sep_def)
  from parse_three_fields [of "int_str y" "pad2 m" "pad2 d", OF _ _ _ _ _ _ this this] f
  show ?thesis by (simp add: ymd_str_def valid_ymd_new_Date [OF assms])
qed

lemma toYMD_make_day:
  assumes "valid_ymd y m d"
  shows "toYMD (Some (DateDay (DayFromYear y + month_start (is_leap y) (nat (m - 1)) + d - 1))) = ymd_str y m d"
proof -
  from assms have "nat (m - 1) < 12" "1 \<le> d" "d \<le> days_in_month (is_leap y) (nat (m - 1))"
    by (auto simp: valid_ymd_def)
  from getters_make_day [OF this] assms show ?thesis
    by (simp add: ymd_str_def valid_ymd_def)
qed

lemma js_trim_prefix:
  assumes "p \<noteq> []" "\<not> js_ws (hd p)" "\<not> js_ws (last p)"
  shows "\<exists>r'. js_trim (p @ r) = p @ r'"
proof -
  have d1: "dropWhile js_ws (p @ r) = p @ r" using assms by (simp add: dropWhile_eq_self_iff)
  have hp: "dropWhile js_ws (rev p) = rev p" using assms by (simp add: dropWhile_eq_self_iff hd_rev)
  have "\<exists>x. dropWhile js_ws (rev r @ rev p) = x @ rev p"
  proof (cases "\<forall>c \<in> set (rev r). js_ws c")
    case True
    then have "dropWhile js_ws (rev r @ rev p) = [] @ rev p" by (simp add: hp dropWhile_append)
    then show ?thesis by blast
  next
    case False
    then show ?thesis by (auto simp: dropWhile_append)
  qed
  then obtain x where "dropWhile js_ws (rev r @ rev p) = x @ rev p" by blast
  then show ?thesis by (auto simp: js_trim_def d1)
qed

lemma parseLocalDate_prefix:
  assumes "length p = 10" "\<not> js_ws (hd p)" "\<not> js_ws (last p)"
  shows "parseLocalDate (p @ r) = parseLocalDate p"
proof -
  from assms have ne: "p \<noteq> []" by auto
  from js_trim_prefix [OF ne assms(2,3)] obtain r' where "js_trim (p @ r) = p @ r'" by blast
  moreover from js_trim_prefix [OF ne assms(2,3), of "[]"] obtain r'' where "js_trim p = p @ r''" by auto
  ultimately have eq: "take 10 (js_trim (p @ r)) = take 10 (js_trim p)" using assms(1) by simp
  have c: "\<not> (p @ r = [] \<or> length (p @ r) < 10)" "\<not> (p = [] \<or> length p < 10)"
    using assms(1) by auto
  show ?thesis unfolding parseLocalDate_def by (simp only: c eq if_False)
qed

lemma ymd_str_trim:
  assumes "valid_ymd y m d"
  shows "js_trim (ymd_str y m d) = ymd_str y m d \<and> ymd_str y m d \<noteq> []"
proof -
  note f = valid_ymd_fields [OF assms]
  then obtain c cs where "int_str y = c # cs" "is_digit c" by (cases "int_str y") auto
  moreover from f have "is_digit (last (pad2 d))" by (auto simp: list_all_iff)
  ultimately show ?thesis using f
    by (auto simp: ymd_str_def intro!: js_trim_digits simp: not_ws_digit)
qed

section \<open>Properties of date parsing and formatting\<close>

text \<open>
  C7. A valid calendar date in canonical form \<open>YYYY-MM-DD\<close> (year 1000 to 9999), picked or
  typed, is stored unchanged by the form handlers.
\<close>

theorem form_date_canonical:
  assumes "valid_ymd y m d"
  shows "form_date (ymd_str y m d) typed = ymd_str y m d \<and> form_date [] (ymd_str y m d) = ymd_str y m d"
  using ymd_str_trim [OF assms] parse_ymd_str [OF assms] toYMD_make_day [OF assms]
  by (simp add: form_date_def)

theorem form_date_canonical_witness:
  "form_date ''2024-03-07'' '''' = ''2024-03-07'' \<and> form_date [] ''2024-03-07'' = ''2024-03-07''"
proof -
  have v: "valid_ymd 2024 3 7" by (simp add: valid_ymd_def days_in_month_def)
  have s: "ymd_str 2024 3 7 = ''2024-03-07''" by code_simp
  from form_date_canonical [OF v, of "''''"] show ?thesis by (simp only: s)
qed

text \<open>
  C8. A valid date typed day first, \<open>DD-MM-YYYY\<close> or with slashes, is stored in canonical
  form \<open>YYYY-MM-DD\<close>.
\<close>

theorem form_date_day_first:
  assumes "valid_ymd y m d" and "is_date_sep s1" and "is_date_sep s2"
  shows "form_date [] (pad2 d @ s1 # pad2 m @ s2 # int_str y) = ymd_str y m d"
proof -
  note f = valid_ymd_fields [OF assms(1)]
  let ?s = "pad2 d @ s1 # pad2 m @ s2 # int_str y"
  from f obtain c cs where "pad2 d = c # cs" "is_digit c" by (cases "pad2 d") auto
  moreover from f have "is_digit (last (int_str y))" by (auto simp: list_all_iff)
  ultimately have tr: "js_trim ?s = ?s" using f by (auto intro!: js_trim_digits simp: not_ws_digit)
  have "parseLocalDate ?s = Some (new_Date y (m - 1) d)"
    using parse_three_fields [of "pad2 d" "pad2 m" "int_str y" s1 s2] f assms(2,3) by simp
  then have "form_date [] ?s =
      toYMD (Some (DateDay (DayFromYear y + month_start (is_leap y) (nat (m - 1)) + d - 1)))"
    using tr f by (simp add: form_date_def valid_ymd_new_Date [OF assms(1)] del: toYMD.simps)
  also have "\<dots> = ymd_str y m d" by (rule toYMD_make_day [OF assms(1)])
  finally show ?thesis .
qed

theorem form_date_day_first_witness:
  "form_date [] ''07-03-2024'' = ''2024-03-07''"
proof -
  have v: "valid_ymd 2024 3 7" by (simp add: valid_ymd_def days_in_month_def)
  have s: "pad2 7 @ CHR ''-'' # pad2 3 @ CHR ''-'' # int_str 2024 = ''07-03-2024''" by code_simp
  have t: "ymd_str 2024 3 7 = ''2024-03-07''" by code_simp
  have "is_date_sep (CHR ''-'')" by (simp add: is_date_sep_def)
  from form_date_day_first [OF v this this] show ?thesis by (simp only: s t)
qed

text \<open>C9. \<open>formatDate\<close> shows a valid canonical date as \<open>DD/MM/YYYY\<close>.\<close>

theorem formatDate_canonical:
  assumes "valid_ymd y m d"
  shows "formatDate (ymd_str y m d) = pad2 d @ ''/'' @ pad2 m @ ''/'' @ int_str y"
proof -
  from valid_ymd_bounds [OF assms]
  have "nat (m - 1) < 12" "1 \<le> d" "d \<le> days_in_month (is_leap y) (nat (m - 1))"
    using assms by (auto simp: valid_ymd_def)
  from getters_make_day [OF this] valid_ymd_bounds [OF assms] show ?thesis
    using ymd_str_trim [OF assms] parse_ymd_str [OF assms]
    by (simp add: formatDate_def en_GB_date_def)
qed

theorem formatDate_canonical_witness: "formatDate ''2024-03-07'' = ''07/03/2024''"
proof -
  have v: "valid_ymd 2024 3 7" by (simp add: valid_ymd_def days_in_month_def)
  have s: "ymd_str 2024 3 7 = ''2024-03-07''" and t: "pad2 7 @ ''/'' @ pad2 3 @ ''/'' @ int_str 2024 = ''07/03/2024''"
    by code_simp+
  from formatDate_canonical [OF v] show ?thesis by (simp only: s t)
qed

lemma getters_valid:
  "month_from_day t < 12 \<and> 1 \<le> date_from_day t \<and>
   date_from_day t \<le> days_in_month (is_leap (year_from_day t)) (month_from_day t)"
proof -
  let ?Y = "year_from_day t" let ?l = "is_leap (year_from_day t)" let ?w = "day_in_year t"
  let ?P = "\<lambda>m. month_start ?l m \<le> ?w"
  have w: "0 \<le> ?w" "?w < days_in_year ?Y"
    using year_from_day_bounds [of t] by (simp_all add: day_in_year_def DayFromYear_Suc)
  have "?P 0" using w by (simp add: month_start_def)
  from scan_up_spec [of 0 11 ?P, OF _ this]
  have M: "month_from_day t \<le> 11" "?P (month_from_day t)"
    "month_from_day t < 11 \<longrightarrow> \<not> ?P (Suc (month_from_day t))"
    unfolding month_from_day_def by auto
  have "?w < month_start ?l (month_from_day t) + days_in_month ?l (month_from_day t)"
  proof (cases "month_from_day t < 11")
    case True
    with M month_start_Suc [of "month_from_day t" ?l] show ?thesis by simp
  next
    case False
    with M have "month_from_day t = 11" by simp
    with w month_start_11 [of ?l] show ?thesis by (simp add: days_in_year_def)
  qed
  with M show ?thesis by (simp add: date_from_day_def)
qed

lemma new_Date_valid_range:
  assumes "0 \<le> y" "y \<le> 9999" "-1 \<le> m" "m \<le> 98" "0 \<le> d" "d \<le> 99"
  shows "\<exists>t. new_Date y m d = DateDay t"
proof -
  let ?yr = "if 0 \<le> y \<and> y \<le> 99 then 1900 + y else y"
  have "-1 \<le> m div 12" "m div 12 \<le> 8" using assms(3,4) by simp_all
  moreover have "0 \<le> ?yr" "?yr \<le> 9999" using assms(1,2) by simp_all
  ultimately have "\<bar>make_day ?yr m d\<bar> \<le> 100000000"
    using assms(5,6) by (intro make_day_range) simp_all
  then show ?thesis by (simp add: new_Date_def Let_def)
qed

lemma ymd_pattern_length: "ymd_pattern s \<Longrightarrow> length s = 10"
  by (cases s rule: ymd_pattern.cases) simp_all

text \<open>
  C10. The canonical string \<open>toYMD\<close> stores re-parses to the same day, for every day of
  the years 1000 to 9999: stored dates survive \<open>formatDate\<close> and the edit sheet.
\<close>

theorem toYMD_parse_roundtrip:
  assumes "1000 \<le> year_from_day t" and "year_from_day t \<le> 9999"
  shows "parseLocalDate (toYMD (Some (DateDay t))) = Some (DateDay t)"
proof -
  let ?Y = "year_from_day t" let ?M = "int (month_from_day t) + 1" let ?D = "date_from_day t"
  have v: "valid_ymd ?Y ?M ?D" using assms getters_valid [of t] by (simp add: valid_ymd_def)
  have "toYMD (Some (DateDay t)) = ymd_str ?Y ?M ?D" by (simp add: ymd_str_def)
  moreover have "DayFromYear ?Y + month_start (is_leap ?Y) (nat (?M - 1)) + ?D - 1 = t"
    using make_day_getters [of t] getters_valid [of t] by (simp add: make_day_in_year)
  ultimately show ?thesis using parse_ymd_str [OF v] by simp
qed

theorem toYMD_parse_roundtrip_witness:
  "parseLocalDate (toYMD (Some (DateDay 19789))) = Some (DateDay 19789)"
proof -
  have "year_from_day 19789 = 2024" by code_simp
  then show ?thesis using toYMD_parse_roundtrip [of 19789] by simp
qed

text \<open>
  C11. Input shorter than ten characters is not a date: \<open>formatDate\<close> shows it as typed
  and the form handlers store an empty date.
\<close>

theorem short_input_rejected:
  assumes "s \<noteq> []" and "length s < 10"
  shows "formatDate s = s \<and> form_date [] s = []"
proof -
  have l: "length (js_trim s) < 10" using assms(2) length_js_trim [of s] by simp
  have "\<not> ymd_pattern (take 10 (js_trim s))" using l ymd_pattern_length by fastforce
  with l assms show ?thesis by (simp add: formatDate_def form_date_def parseLocalDate_def Let_def)
qed

theorem short_input_rejected_witness:
  "formatDate ''2024-3-7'' = ''2024-3-7'' \<and> form_date [] ''2024-3-7'' = []"
  by (rule short_input_rejected) simp_all

lemma ymd_pattern_parses:
  assumes "ymd_pattern (take 10 date)"
  shows "\<exists>t. parseLocalDate date = Some (DateDay t)"
proof -
  obtain y1 y2 y3 y4 s1 m1 m2 s2 d1 d2 where p: "take 10 date = [y1, y2, y3, y4, s1, m1, m2, s2, d1, d2]"
    using ymd_pattern_length [OF assms] by (cases "take 10 date" rule: ymd_pattern.cases) auto
  let ?a = "[y1, y2, y3, y4]" let ?b = "[m1, m2]" let ?c = "[d1, d2]"
  from assms p have dig: "list_all is_digit ?a" "list_all is_digit ?b" "list_all is_digit ?c"
    and s: "s1 = CHR ''-''" "s2 = CHR ''-''" by auto
  have sep: "is_date_sep s1" "is_date_sep s2" using s by (simp_all add: is_date_sep_def)
  have date: "date = ?a @ s1 # ?b @ s2 # ?c @ drop 10 date"
    using p append_take_drop_id [of 10 date] by simp
  have "parseLocalDate date = parseLocalDate (?a @ s1 # ?b @ s2 # ?c)"
    using dig date parseLocalDate_prefix [of "?a @ s1 # ?b @ s2 # ?c" "drop 10 date"]
    by (simp add: not_ws_digit)
  also have "\<dots> = Some (new_Date (int (digits_nat ?a)) (int (digits_nat ?b) - 1) (int (digits_nat ?c)))"
    using parse_three_fields [OF dig _ _ _ sep] by simp
  finally have eq: "parseLocalDate date = \<dots>" .
  have "digits_nat ?a < 10 ^ 4" "digits_nat ?b < 10 ^ 2" "digits_nat ?c < 10 ^ 2"
    using digits_nat_less [OF dig(1)] digits_nat_less [OF dig(2)] digits_nat_less [OF dig(3)] by simp_all
  then obtain t where "new_Date (int (digits_nat ?a)) (int (digits_nat ?b) - 1) (int (digits_nat ?c)) = DateDay t"
    using new_Date_valid_range [of "int (digits_nat ?a)" "int (digits_nat ?b) - 1" "int (digits_nat ?c)"]
    by fastforce
  with eq have "parseLocalDate date = Some (DateDay t)" by simp
  then show ?thesis by blast
qed

text \<open>
  C12. The fallback of the submit handlers that keeps a string of the form
  \<open>/^\d{4}-\d{2}-\d{2}$/\<close> when parsing gives no valid date is unreachable: every such
  string parses to a valid date.
\<close>

theorem regex_fallback_unreachable:
  assumes "ymd_pattern (take 10 date)"
  shows "\<exists>t. parseLocalDate date = Some (DateDay t)"
  using assms by (rule ymd_pattern_parses)

theorem regex_fallback_unreachable_witness:
  "\<exists>t. parseLocalDate ''0000-00-00'' = Some (DateDay t)"
  by (rule regex_fallback_unreachable) code_simp

text \<open>
  C13. A date that \<open>parseLocalDate\<close> rejects, picked or typed (such as the spec's
  \<open>not-a-date\<close>), is shown as it is by \<open>formatDate\<close> and stored by the submit
  handlers as the empty date: the regular-expression fallback never keeps it.
\<close>

theorem malformed_date_rejected:
  assumes "parseLocalDate (if native \<noteq> [] then native else js_trim typed) = None"
  shows "formatDate (if native \<noteq> [] then native else js_trim typed) = (if native \<noteq> [] then native else js_trim typed) \<and>
         form_date native typed = []"
proof -
  let ?d = "if native \<noteq> [] then native else js_trim typed"
  have "\<not> ymd_pattern (take 10 ?d)" using ymd_pattern_parses [of ?d] assms by auto
  with assms show ?thesis by (simp add: formatDate_def form_date_def Let_def)
qed

theorem malformed_date_rejected_witness:
  "formatDate ''not-a-date'' = ''not-a-date'' \<and> form_date [] ''not-a-date'' = []"
proof -
  have t: "js_trim ''not-a-date'' = ''not-a-date''" by code_simp
  have "parseLocalDate ''not-a-date'' = None" by code_simp
  then show ?thesis using malformed_date_rejected [of "[]" "''not-a-date''"] t by simp
qed

subsection \<open>Behaviours the specification does not state\<close>

text \<open>A four-digit year below 100 is read as a year of the 1900s by \<open>new Date\<close>.\<close>

lemma two_digit_year_shift: "form_date [] ''0024-03-07'' = ''1924-03-07''"
  by code_simp

text \<open>A day beyond the end of its month rolls over into the next month.\<close>

lemma day_rollover: "form_date [] ''2024-02-30'' = ''2024-03-01''"
  by code_simp

text \<open>\<open>parseInt\<close> reads a numeric prefix, so a segment with trailing letters is accepted.\<close>

lemma numeric_prefix_accepted: "form_date [] ''2024-03-7x'' = ''2024-03-07''"
  by code_simp

text \<open>
  A date whose month or day overflows rolls over past the year 9999: the handlers then
  store a five-digit year, and \<open>addPayment\<close>'s \<open>date.slice(0, 10)\<close> cuts its last digit.
\<close>

lemma overflowing_date_form:
  "form_date [] ''9999-99-99'' = ''10007-06-07''"
proof -
  have p: "parseLocalDate ''9999-99-99'' = Some (DateDay 2935611)" by code_simp
  have y: "year_from_day 2935611 = 10007" by code_simp
  have i: "int_str 10007 = ''10007''"
    by (simp add: int_str_def nat_digits_steps digit_char_def) code_simp
  have "toYMD (Some (DateDay 2935611)) = ''10007-06-07''"
    unfolding toYMD.simps month_from_day_def date_from_day_def day_in_year_def y i
    by code_simp
  moreover have "js_trim ''9999-99-99'' = ''9999-99-99''" by code_simp
  ultimately show ?thesis
    unfolding form_date_def Let_def by (simp del: toYMD.simps add: p)
qed

end
