(* ===== verification/App.thy ===== *)
theory App
  imports Storage Dates
begin

text \<open>
  The application of \<open>src/www/app.js\<close> as one state and one step function over user
  events: the global \<open>payments\<close> array, \<open>localStorage\<close>, the rendered summary and list
  and the DOM state the handlers read and write (open sheets, modals and menu, the
  confirmation's pending action, the form fields). The mutation handlers
  (\<open>addPayment\<close>, \<open>updatePayment\<close>, \<open>deletePayment\<close>, \<open>clearAll\<close>) change the
  array, \<open>save\<close> and \<open>render\<close>; each event listener of lines 255--359 is one case of
  \<open>step\<close>, followed by the document's click listener (lines 278--282) for the clicks
  that bubble to it from outside the menu.
\<close>

section \<open>State\<close>

text \<open>
  The action \<open>confirm(message, onOk)\<close> installs as \<open>el.confirmOk.onclick\<close>: the closure
  \<open>() => deletePayment(id)\<close> of a card's delete button or \<open>() => clearAll()\<close> of the
  menu.
\<close>

datatype pending = DeleteOne string | DeleteAll

text \<open>
  One rendered card of \<open>render()\<close> (lines 225--232): its \<open>data-id\<close>, which both of
  its buttons carry, and the texts of its index, amount and date.
\<close>

record card =
  card_id :: string
  card_index :: string
  card_amount :: string
  card_date :: string

datatype list_view = EmptyMessage | Cards "card list"

text \<open>
  The DOM state. An element's \<open>is-open\<close> class and its \<open>aria-hidden\<close> attribute are
  always set together, one the negation of the other, so one flag models both;
  \<open>confirm_ok\<close> is \<open>el.confirmOk.onclick\<close> (\<open>None\<close> for \<open>null\<close>). The field
  \<open>pays\<close> is the global \<open>payments\<close> (the name \<open>payments_update\<close> of its update
  function is taken by theory \<open>Payments\<close>).
\<close>

record app =
  pays :: payments
  storage :: local_storage
  total_paid :: string
  total_month :: string
  payment_list :: list_view
  dropdown_open :: bool
  add_open :: bool
  edit_open :: bool
  about_open :: bool
  confirm_open :: bool
  confirm_message :: string
  confirm_ok :: "pending option"
  input_amount :: string
  input_date :: string
  input_date_native :: string
  edit_id :: string
  edit_amount :: string
  edit_date :: string
  edit_date_native :: string

text \<open>
  What the environment decides at an event: the current local day (for
  \<open>getTodayYMD\<close>) and whether \<open>localStorage.setItem\<close> succeeds.
\<close>

record env =
  today :: int
  write_ok :: bool

section \<open>Rendering\<close>

text \<open>The card of payment \<open>p\<close> at position \<open>i\<close> (the template literal of lines 225--232).\<close>

definition render_card :: "nat \<Rightarrow> payment \<Rightarrow> card" where
  "render_card i p =
     \<lparr>card_id = int_str (pid p), card_index = int_str (int i + 1) @ ''.'',
      card_amount = num_to_string (amount p), card_date = formatDisplayDate (date p)\<rparr>"

text \<open>
  \<open>render()\<close>, lines 213--248, with \<open>renderSummary()\<close> (109--113): the summary texts
  \<open>String(totalAmount)\<close> and \<open>String(totalMonths)\<close>, then the empty message or one card
  per payment in array order. The buttons' listeners are the cases \<open>EditButton\<close> and
  \<open>DeleteButton\<close> of \<open>step\<close>, which read the card they belong to.
\<close>

definition render_list :: "payments \<Rightarrow> list_view" where
  "render_list ps = (if ps = [] then EmptyMessage else Cards (map2 render_card [0..<length ps] ps))"

definition render :: "app \<Rightarrow> app" where
  "render s =
     (let (totalAmount, totalMonths) = getTotals (pays s)
      in s\<lparr>total_paid := num_to_string totalAmount, total_month := int_str (int totalMonths),
           payment_list := render_list (pays s)\<rparr>)"

section \<open>Mutation handlers\<close>

text \<open>\<open>save(); render();\<close>, the common end of the four handlers.\<close>

definition save_render :: "env \<Rightarrow> app \<Rightarrow> app" where
  "save_render e s = render (s\<lparr>storage := save (write_ok e) (pays s) (storage s)\<rparr>)"

text \<open>\<open>addPayment(amount, date)\<close>, lines 181--190.\<close>

definition addPayment :: "env \<Rightarrow> string \<Rightarrow> string \<Rightarrow> app \<Rightarrow> app" where
  "addPayment e a d s = save_render e (s\<lparr>pays := payments_add (pays s) a d\<rparr>)"

text \<open>\<open>updatePayment(id, amount, date)\<close>, lines 192--199: no match returns before \<open>save\<close>.\<close>

definition updatePayment :: "env \<Rightarrow> string \<Rightarrow> string \<Rightarrow> string \<Rightarrow> app \<Rightarrow> app" where
  "updatePayment e i a d s =
     (case payments_update (pays s) i a d of
        None \<Rightarrow> s
      | Some ps \<Rightarrow> save_render e (s\<lparr>pays := ps\<rparr>))"

text \<open>\<open>deletePayment(id)\<close>, lines 201--205.\<close>

definition deletePayment :: "env \<Rightarrow> string \<Rightarrow> app \<Rightarrow> app" where
  "deletePayment e i s = save_render e (s\<lparr>pays := payments_delete (pays s) i\<rparr>)"

text \<open>\<open>clearAll()\<close>, lines 207--211.\<close>

definition clearAll :: "env \<Rightarrow> app \<Rightarrow> app" where
  "clearAll e s = save_render e (s\<lparr>pays := []\<rparr>)"

section \<open>Sheets, modals and the menu\<close>

text \<open>
  \<open>openAddSheet()\<close>, lines 115--123: \<open>formAdd.reset()\<close> empties the form's three
  fields (their markup declares no default value), then the picker gets today's date
  and the text field its display form.
\<close>

definition openAddSheet :: "env \<Rightarrow> app \<Rightarrow> app" where
  "openAddSheet e s =
     (let t = getTodayYMD (today e)
      in s\<lparr>input_amount := [], input_date_native := t, input_date := formatDisplayDate t,
           add_open := True\<rparr>)"

definition closeAddSheet :: "app \<Rightarrow> app" where
  "closeAddSheet s = s\<lparr>add_open := False\<rparr>"

text \<open>\<open>openEditSheet(payment)\<close>, lines 130--138.\<close>

definition openEditSheet :: "payment \<Rightarrow> app \<Rightarrow> app" where
  "openEditSheet p s =
     s\<lparr>edit_id := int_str (pid p), edit_amount := num_to_string (amount p),
       edit_date := formatDisplayDate (date p),
       edit_date_native := (if date p \<noteq> [] then take 10 (date p) else []),
       edit_open := True\<rparr>"

definition closeEditSheet :: "app \<Rightarrow> app" where
  "closeEditSheet s = s\<lparr>edit_open := False\<rparr>"

definition openAbout :: "app \<Rightarrow> app" where
  "openAbout s = s\<lparr>about_open := True\<rparr>"

definition closeAbout :: "app \<Rightarrow> app" where
  "closeAbout s = s\<lparr>about_open := False\<rparr>"

text \<open>\<open>confirm(message, onOk)\<close> and \<open>closeConfirm()\<close>, lines 155--169.\<close>

definition confirm :: "string \<Rightarrow> pending \<Rightarrow> app \<Rightarrow> app" where
  "confirm msg act s = s\<lparr>confirm_message := msg, confirm_open := True, confirm_ok := Some act\<rparr>"

definition closeConfirm :: "app \<Rightarrow> app" where
  "closeConfirm s = s\<lparr>confirm_open := False, confirm_ok := None\<rparr>"

definition closeDropdown :: "app \<Rightarrow> app" where
  "closeDropdown s = s\<lparr>dropdown_open := False\<rparr>"

text \<open>
  \<open>openDatePicker(input, displayInput)\<close>, lines 304--312, on the add form and on the
  edit form: an empty picker gets today's date; \<open>showPicker()\<close> opens the browser's
  picker, whose choice arrives later as a \<open>change\<close> event.
\<close>

definition openAddDatePicker :: "env \<Rightarrow> app \<Rightarrow> app" where
  "openAddDatePicker e s =
     (if input_date_native s = []
      then let t = getTodayYMD (today e)
           in s\<lparr>input_date_native := t, input_date := formatDisplayDate t\<rparr>
      else s)"

definition openEditDatePicker :: "env \<Rightarrow> app \<Rightarrow> app" where
  "openEditDatePicker e s =
     (if edit_date_native s = []
      then let t = getTodayYMD (today e)
           in s\<lparr>edit_date_native := t, edit_date := formatDisplayDate t\<rparr>
      else s)"

text \<open>The action that \<open>el.confirmOk.onclick\<close> runs after \<open>closeConfirm()\<close>.\<close>

fun run_pending :: "env \<Rightarrow> pending \<Rightarrow> app \<Rightarrow> app" where
  "run_pending e (DeleteOne i) s = deletePayment e i s"
| "run_pending e DeleteAll s = clearAll e s"


section \<open>Event listeners\<close>

text \<open>
  The events the page reacts to. Clicks name their target; \<open>EditButton i\<close> and
  \<open>DeleteButton i\<close> are clicks on the buttons of the \<open>i\<close>-th rendered card;
  \<open>TypeAmount v\<close> and its siblings are the user typing \<open>v\<close> into a field (no listener
  runs); \<open>PickDate v\<close> is the native picker's value becoming \<open>v\<close> with its \<open>change\<close>
  event; \<open>SubmitAdd\<close> and \<open>SubmitEdit\<close> are the forms' \<open>submit\<close> events;
  \<open>OtherClick\<close> is a click anywhere else.
\<close>

datatype event =
    MenuClick | NavAdd | NavAbout | NavDeleteAll
  | AddBackdrop | EditBackdrop | AboutBackdrop | ConfirmBackdrop | AboutClose
  | ConfirmCancel | ConfirmOk | EditButton nat | DeleteButton nat
  | TypeAmount string | TypeDate string | PickDate string | SubmitAdd
  | DatePickerBtn | DateFieldClick | DateNativeFocus
  | TypeEditAmount string | TypeEditDate string | PickEditDate string | SubmitEdit
  | EditDatePickerBtn | EditDateFieldClick | EditDateNativeFocus
  | OtherClick

text \<open>The card a button belongs to, when the list shows that many cards.\<close>

fun card_at :: "list_view \<Rightarrow> nat \<Rightarrow> card option" where
  "card_at EmptyMessage i = None"
| "card_at (Cards cs) i = (if i < length cs then Some (cs ! i) else None)"

text \<open>The listener of an edit button, lines 237--240.\<close>

definition editButtonClick :: "nat \<Rightarrow> app \<Rightarrow> app" where
  "editButtonClick i s =
     (case card_at (payment_list s) i of
        None \<Rightarrow> s
      | Some c \<Rightarrow> (case List.find (id_matches (card_id c)) (pays s) of
                    Some p \<Rightarrow> openEditSheet p s
                  | None \<Rightarrow> s))"

text \<open>The listener of a delete button, lines 243--246.\<close>

definition deleteButtonClick :: "nat \<Rightarrow> app \<Rightarrow> app" where
  "deleteButtonClick i s =
     (case card_at (payment_list s) i of
        None \<Rightarrow> s
      | Some c \<Rightarrow> confirm ''Delete this payment?'' (DeleteOne (card_id c)) s)"

text \<open>The menu button, lines 255--258: \<open>classList.toggle\<close>.\<close>

definition menuClick :: "app \<Rightarrow> app" where
  "menuClick s = s\<lparr>dropdown_open := \<not> dropdown_open s\<rparr>"

text \<open>\<open>navDeleteAll\<close>, lines 270--276: nothing to confirm for an empty array.\<close>

definition navDeleteAll :: "app \<Rightarrow> app" where
  "navDeleteAll s =
     (let s' = closeDropdown s
      in if pays s' = [] then s'
         else confirm ''Delete all payments? This cannot be undone.'' DeleteAll s')"

text \<open>\<open>el.confirmOk.onclick\<close>, lines 159--162; a \<open>null\<close> handler does nothing.\<close>

definition confirmOkClick :: "env \<Rightarrow> app \<Rightarrow> app" where
  "confirmOkClick e s =
     (case confirm_ok s of
        None \<Rightarrow> s
      | Some act \<Rightarrow> run_pending e act (closeConfirm s))"

text \<open>
  The add form's \<open>submit\<close> listener, lines 289--302: the trimmed amount, the date
  normalised by \<open>form_date\<close> (theory \<open>Dates\<close>), the early return on an empty amount.
\<close>

definition submitAdd :: "env \<Rightarrow> app \<Rightarrow> app" where
  "submitAdd e s =
     (let a = js_trim (input_amount s); dateStr = form_date (input_date_native s) (input_date s)
      in if a = [] then s else closeAddSheet (addPayment e a dateStr s))"

text \<open>The edit form's \<open>submit\<close> listener, lines 328--341: it has no amount guard.\<close>

definition submitEdit :: "env \<Rightarrow> app \<Rightarrow> app" where
  "submitEdit e s =
     (let a = js_trim (edit_amount s); dateStr = form_date (edit_date_native s) (edit_date s)
      in closeEditSheet (updatePayment e (edit_id s) a dateStr s))"

text \<open>Each listener, lines 255--359, by the event that triggers it.\<close>

fun handle :: "env \<Rightarrow> event \<Rightarrow> app \<Rightarrow> app" where
  "handle e MenuClick s = menuClick s"
| "handle e NavAdd s = openAddSheet e (closeDropdown s)"
| "handle e NavAbout s = openAbout (closeDropdown s)"
| "handle e NavDeleteAll s = navDeleteAll s"
| "handle e AddBackdrop s = closeAddSheet s"
| "handle e EditBackdrop s = closeEditSheet s"
| "handle e AboutBackdrop s = closeAbout s"
| "handle e ConfirmBackdrop s = closeConfirm s"
| "handle e AboutClose s = closeAbout s"
| "handle e ConfirmCancel s = closeConfirm s"
| "handle e ConfirmOk s = confirmOkClick e s"
| "handle e (EditButton i) s = editButtonClick i s"
| "handle e (DeleteButton i) s = deleteButtonClick i s"
| "handle e (TypeAmount v) s = s\<lparr>input_amount := v\<rparr>"
| "handle e (TypeDate v) s = s\<lparr>input_date := v\<rparr>"
| "handle e (PickDate v) s = s\<lparr>input_date_native := v, input_date := syncDateToDisplay v\<rparr>"
| "handle e SubmitAdd s = submitAdd e s"
| "handle e DatePickerBtn s = openAddDatePicker e s"
| "handle e DateFieldClick s = openAddDatePicker e s"
| "handle e DateNativeFocus s = openAddDatePicker e s"
| "handle e (TypeEditAmount v) s = s\<lparr>edit_amount := v\<rparr>"
| "handle e (TypeEditDate v) s = s\<lparr>edit_date := v\<rparr>"
| "handle e (PickEditDate v) s = s\<lparr>edit_date_native := v, edit_date := syncDateToDisplay v\<rparr>"
| "handle e SubmitEdit s = submitEdit e s"
| "handle e EditDatePickerBtn s = openEditDatePicker e s"
| "handle e EditDateFieldClick s = openEditDatePicker e s"
| "handle e EditDateNativeFocus s = openEditDatePicker e s"
| "handle e OtherClick s = s"

text \<open>
  The document's click listener, lines 278--282, closes the menu after every click
  whose target is outside the menu button and the dropdown; the listeners of the
  menu items close it themselves.
\<close>

fun outside_click :: "event \<Rightarrow> bool" where
  "outside_click MenuClick = False"
| "outside_click NavAdd = False"
| "outside_click NavAbout = False"
| "outside_click NavDeleteAll = False"
| "outside_click (TypeAmount v) = False"
| "outside_click (TypeDate v) = False"
| "outside_click (PickDate v) = False"
| "outside_click SubmitAdd = False"
| "outside_click DateNativeFocus = False"
| "outside_click (TypeEditAmount v) = False"
| "outside_click (TypeEditDate v) = False"
| "outside_click (PickEditDate v) = False"
| "outside_click SubmitEdit = False"
| "outside_click EditDateNativeFocus = False"
| "outside_click _ = True"

definition step :: "env \<Rightarrow> event \<Rightarrow> app \<Rightarrow> app" where
  "step e ev s = (let s' = handle e ev s in if outside_click ev then closeDropdown s' else s')"

fun run :: "(env \<times> event) list \<Rightarrow> app \<Rightarrow> app" where
  "run [] s = s"
| "run ((e, ev) # evs) s = run evs (step e ev s)"


section \<open>Start-up\<close>

text \<open>
  The page after \<open>load(); render();\<close> (lines 361--362), for the array \<open>ps\<close> that
  \<open>load()\<close> produced from the store \<open>st\<close>: no sheet, modal or menu is open, the
  confirmation has no handler, the form fields are empty.
\<close>

definition boot :: "local_storage \<Rightarrow> payments \<Rightarrow> app" where
  "boot st ps =
     render \<lparr>pays = ps, storage = st, total_paid = [], total_month = [],
       payment_list = EmptyMessage, dropdown_open = False, add_open = False,
       edit_open = False, about_open = False, confirm_open = False, confirm_message = [],
       confirm_ok = None, input_amount = [], input_date = [], input_date_native = [],
       edit_id = [], edit_amount = [], edit_date = [], edit_date_native = []\<rparr>"

text \<open>
  Start-up from the store: \<open>None\<close> when \<open>load()\<close> installs a value that is not an array
  of payments (theory \<open>Storage\<close>), which the model does not follow further.
\<close>

definition start :: "local_storage \<Rightarrow> app option" where
  "start st = (case load (st STORAGE_KEY) of Loaded ps \<Rightarrow> Some (boot st ps) | Unrecognised j \<Rightarrow> None)"

section \<open>The application invariant\<close>

text \<open>
  The rendered summary and list are those of the current array (\<open>render\<close> ran after
  the last change), and the confirmation modal is open exactly when its OK button has a
  handler.
\<close>

definition view_ok :: "app \<Rightarrow> bool" where
  "view_ok s \<longleftrightarrow>
     total_paid s = num_to_string (fst (getTotals (pays s))) \<and>
     total_month s = int_str (int (length (pays s))) \<and>
     payment_list s = render_list (pays s)"

definition app_inv :: "app \<Rightarrow> bool" where
  "app_inv s \<longleftrightarrow> wf_payments (pays s) \<and> view_ok s \<and> (confirm_open s \<longleftrightarrow> confirm_ok s \<noteq> None)"


section \<open>Lemmas\<close>

lemma snd_getTotals [simp]: "snd (getTotals ps) = length ps"
  by (simp add: getTotals_def)

lemma render_fields [simp]:
  "pays (render s) = pays s" "storage (render s) = storage s"
  "view_ok (render s)"
  "confirm_open (render s) = confirm_open s" "confirm_ok (render s) = confirm_ok s"
  by (simp_all add: render_def view_ok_def case_prod_beta Let_def)

lemma save_render_fields [simp]:
  "pays (save_render e s) = pays s" "view_ok (save_render e s)"
  "confirm_open (save_render e s) = confirm_open s" "confirm_ok (save_render e s) = confirm_ok s"
  by (simp_all add: save_render_def)

lemma app_inv_addPayment [inv_rules]: "app_inv s \<Longrightarrow> app_inv (addPayment e a d s)"
  by (simp add: addPayment_def app_inv_def wf_payments_add)

lemma app_inv_updatePayment [inv_rules]: "app_inv s \<Longrightarrow> app_inv (updatePayment e i a d s)"
  by (auto simp: updatePayment_def app_inv_def split: option.split
           intro: wf_payments_update)

lemma app_inv_deletePayment [inv_rules]: "app_inv s \<Longrightarrow> app_inv (deletePayment e i s)"
  by (simp add: deletePayment_def app_inv_def wf_payments_delete)

lemma app_inv_clearAll [inv_rules]: "app_inv s \<Longrightarrow> app_inv (clearAll e s)"
  by (simp add: clearAll_def app_inv_def)

lemma app_inv_run_pending [inv_rules]: "app_inv s \<Longrightarrow> app_inv (run_pending e act s)"
  by (cases act) (simp_all add: inv_rules)

lemmas ui_defs = openAddSheet_def closeAddSheet_def openEditSheet_def closeEditSheet_def
  openAbout_def closeAbout_def confirm_def closeConfirm_def closeDropdown_def
  openAddDatePicker_def openEditDatePicker_def menuClick_def navDeleteAll_def

lemma app_inv_ui [inv_rules]:
  "app_inv s \<Longrightarrow> app_inv (openAddSheet e s)" "app_inv s \<Longrightarrow> app_inv (closeAddSheet s)"
  "app_inv s \<Longrightarrow> app_inv (openEditSheet p s)" "app_inv s \<Longrightarrow> app_inv (closeEditSheet s)"
  "app_inv s \<Longrightarrow> app_inv (openAbout s)" "app_inv s \<Longrightarrow> app_inv (closeAbout s)"
  "app_inv s \<Longrightarrow> app_inv (confirm m act s)" "app_inv s \<Longrightarrow> app_inv (closeConfirm s)"
  "app_inv s \<Longrightarrow> app_inv (closeDropdown s)" "app_inv s \<Longrightarrow> app_inv (menuClick s)"
  "app_inv s \<Longrightarrow> app_inv (openAddDatePicker e s)" "app_inv s \<Longrightarrow> app_inv (openEditDatePicker e s)"
  "app_inv s \<Longrightarrow> app_inv (navDeleteAll s)"
  "app_inv s \<Longrightarrow> app_inv (s\<lparr>input_amount := v\<rparr>)" "app_inv s \<Longrightarrow> app_inv (s\<lparr>input_date := v\<rparr>)"
  "app_inv s \<Longrightarrow> app_inv (s\<lparr>input_date_native := v, input_date := w\<rparr>)"
  "app_inv s \<Longrightarrow> app_inv (s\<lparr>edit_amount := v\<rparr>)" "app_inv s \<Longrightarrow> app_inv (s\<lparr>edit_date := v\<rparr>)"
  "app_inv s \<Longrightarrow> app_inv (s\<lparr>edit_date_native := v, edit_date := w\<rparr>)"
  by (simp_all add: app_inv_def view_ok_def ui_defs Let_def)

lemma app_inv_step [inv_rules]: "app_inv s \<Longrightarrow> app_inv (step e ev s)"
  by (cases ev) (auto simp: step_def editButtonClick_def deleteButtonClick_def confirmOkClick_def
      submitAdd_def submitEdit_def Let_def inv_rules split: option.split)


lemma app_inv_run [inv_rules]: "app_inv s \<Longrightarrow> app_inv (run evs s)"
  by (induction evs arbitrary: s) (auto simp: inv_rules)

lemma app_inv_boot [inv_rules]: "wf_payments ps \<Longrightarrow> app_inv (boot st ps)"
  by (simp add: boot_def app_inv_def)


lemma card_at_render_list:
  "i < length ps \<Longrightarrow> card_at (render_list ps) i = Some (render_card i (ps ! i))"
  by (auto simp: render_list_def)

lemma card_id_render_card [simp]: "card_id (render_card i p) = int_str (pid p)"
  by (simp add: render_card_def)

lemma app_inv_card_at:
  "app_inv s \<Longrightarrow> i < length (pays s) \<Longrightarrow> card_at (payment_list s) i = Some (render_card i (pays s ! i))"
  by (simp add: app_inv_def view_ok_def card_at_render_list)

lemma app_inv_distinct: "app_inv s \<Longrightarrow> distinct (map pid (pays s))"
  by (simp add: app_inv_def wf_payments_def)

lemmas handler_defs = step_def ui_defs editButtonClick_def deleteButtonClick_def confirmOkClick_def
  submitAdd_def submitEdit_def addPayment_def updatePayment_def deletePayment_def clearAll_def

lemma step_keeps_ids:
  "ev \<noteq> ConfirmOk \<Longrightarrow> pid ` set (pays s) \<subseteq> pid ` set (pays (step e ev s))"
  by (cases ev) (auto simp: handler_defs Let_def
      dest: pid_set_payments_update intro: subsetD [OF pid_set_payments_add] split: option.split)

lemma storage_save_render:
  "write_ok e \<Longrightarrow> storage (save_render e s) STORAGE_KEY = Some (json_stringify (payments_json (pays s)))"
  "\<not> write_ok e \<Longrightarrow> storage (save_render e s) = storage s"
  by (simp_all add: save_render_def save_def)

lemma storage_run_pending:
  "write_ok e \<Longrightarrow> storage (run_pending e act s) STORAGE_KEY =
     Some (json_stringify (payments_json (pays (run_pending e act s))))"
  "\<not> write_ok e \<Longrightarrow> storage (run_pending e act s) = storage s"
  by (cases act; simp add: deletePayment_def clearAll_def storage_save_render)+

lemma step_EditButton:
  assumes "app_inv s" and "i < length (pays s)"
  shows "step e (EditButton i) s =
           closeDropdown (openEditSheet (pays s ! i) s)"
proof -
  have "List.find (id_matches (int_str (pid (pays s ! i)))) (pays s) = Some (pays s ! i)"
    using assms by (simp add: id_matches_int_str app_inv_distinct find_key_nth)
  with assms show ?thesis by (simp add: step_def editButtonClick_def app_inv_card_at)
qed

lemma step_DeleteButton:
  assumes "app_inv s" and "i < length (pays s)"
  shows "step e (DeleteButton i) s =
           closeDropdown (confirm ''Delete this payment?'' (DeleteOne (int_str (pid (pays s ! i)))) s)"
  using assms by (simp add: step_def deleteButtonClick_def app_inv_card_at)

lemma step_persists:
  assumes "write_ok e" and "pays (step e ev s) \<noteq> pays s"
  shows "storage (step e ev s) STORAGE_KEY = Some (json_stringify (payments_json (pays (step e ev s))))"
  using assms
  by (cases ev) (auto simp: handler_defs Let_def storage_save_render storage_run_pending
      split: option.splits if_splits)

lemma pays_run_pending_Nil: "pays s = [] \<Longrightarrow> pays (run_pending e act s) = []"
  by (cases act) (simp_all add: deletePayment_def clearAll_def save_render_def payments_delete_def)

lemma save_render_failed:
  "\<not> write_ok e \<Longrightarrow> save_render e s = (save_render (e\<lparr>write_ok := True\<rparr>) s)\<lparr>storage := storage s\<rparr>"
  by (simp add: save_render_def save_def render_def split: prod.split)

lemma run_pending_failed:
  "\<not> write_ok e \<Longrightarrow> run_pending e act s = (run_pending (e\<lparr>write_ok := True\<rparr>) act s)\<lparr>storage := storage s\<rparr>"
  by (cases act) (simp_all add: deletePayment_def clearAll_def save_render_failed)

lemma step_failed_write:
  assumes "\<not> write_ok e"
  shows "step e ev s = (step (e\<lparr>write_ok := True\<rparr>) ev s)\<lparr>storage := storage s\<rparr>"
  using assms
  by (cases ev) (auto simp: handler_defs Let_def save_render_failed run_pending_failed split: option.splits)

lemma step_storage_cases:
  assumes "write_ok e"
  shows "storage (step e ev s) = storage s \<or>
         storage (step e ev s) STORAGE_KEY = Some (json_stringify (payments_json (pays (step e ev s))))"
  using assms
  by (cases ev) (auto simp: handler_defs Let_def storage_save_render storage_run_pending
      split: option.splits)

lemma step_storage_sync:
  assumes "write_ok e" and "storage s STORAGE_KEY = Some (json_stringify (payments_json (pays s)))"
  shows "storage (step e ev s) STORAGE_KEY = Some (json_stringify (payments_json (pays (step e ev s))))"
proof (cases "pays (step e ev s) = pays s")
  case True
  with assms step_storage_cases [OF assms(1), of ev s] show ?thesis by auto
next
  case False
  with assms(1) show ?thesis by (rule step_persists)
qed

section \<open>Properties\<close>

text \<open>
  C14. Every state the page reaches from start-up with a well-formed array, by any
  sequence of events, satisfies the application invariant: the array is well formed, the
  summary and the list show that array, and the confirmation modal is open exactly when
  its OK button has an action.
\<close>

theorem app_inv_reachable:
  assumes "wf_payments ps"
  shows "app_inv (run evs (boot st ps))"
  using assms by (intro app_inv_run app_inv_boot)

theorem app_inv_reachable_witness:
  "app_inv (run [(\<lparr>today = 0, write_ok = True\<rparr>, NavDeleteAll)] (boot Map.empty []))"
  using app_inv_reachable [of "[]" "[(\<lparr>today = 0, write_ok = True\<rparr>, NavDeleteAll)]" Map.empty]
  by simp

text \<open>
  C15. No event other than a click on the confirmation's OK button removes a payment:
  every id present before the event is present after it.
\<close>

theorem no_removal_without_confirm:
  assumes "ev \<noteq> ConfirmOk"
  shows "pid ` set (pays s) \<subseteq> pid ` set (pays (step e ev s))"
  using assms by (rule step_keeps_ids)


theorem no_removal_without_confirm_witness:
  "pid ` set (pays (boot Map.empty [\<lparr>pid = 1, amount = Fin 10, date = ''2024-01-15''\<rparr>])) \<subseteq>
   pid ` set (pays (step \<lparr>today = 0, write_ok = True\<rparr> (DeleteButton 0)
                    (boot Map.empty [\<lparr>pid = 1, amount = Fin 10, date = ''2024-01-15''\<rparr>])))"
  by (rule no_removal_without_confirm) simp

text \<open>
  C16. Clicking the delete button of the \<open>i\<close>-th card and then confirming removes the
  \<open>i\<close>-th payment and no other; the order of the others is kept.
\<close>

theorem confirmed_delete_removes_card:
  assumes "app_inv s" and "i < length (pays s)"
  shows "pays (run [(e1, DeleteButton i), (e2, ConfirmOk)] s) = take i (pays s) @ drop (Suc i) (pays s)"
proof -
  have "pays (run [(e1, DeleteButton i), (e2, ConfirmOk)] s) = filter (\<lambda>p. pid p \<noteq> pid (pays s ! i)) (pays s)"
    using assms by (simp add: step_DeleteButton)
      (simp add: step_def confirmOkClick_def ui_defs deletePayment_def payments_delete_int_str)
  also have "\<dots> = take i (pays s) @ drop (Suc i) (pays s)"
    using assms by (simp add: app_inv_distinct filter_key_nth)
  finally show ?thesis .
qed

theorem confirmed_delete_removes_card_witness:
  "pays (run [(\<lparr>today = 0, write_ok = True\<rparr>, DeleteButton 0), (\<lparr>today = 0, write_ok = False\<rparr>, ConfirmOk)]
      (boot Map.empty [\<lparr>pid = 1, amount = Fin 10, date = ''''\<rparr>, \<lparr>pid = 2, amount = Fin 20, date = ''''\<rparr>])) =
   [\<lparr>pid = 2, amount = Fin 20, date = ''''\<rparr>]"
proof -
  have "app_inv (boot Map.empty [\<lparr>pid = 1, amount = Fin 10, date = ''''\<rparr>, \<lparr>pid = 2, amount = Fin 20, date = ''''\<rparr>])"
    by (rule app_inv_boot) (simp add: wf_payments_def)
  from confirmed_delete_removes_card [OF this, of 0] show ?thesis by (simp add: boot_def)
qed

text \<open>
  C17. Whenever an event changes the array and the store accepts the write, the store
  holds \<open>JSON.stringify\<close> of the new array under \<open>STORAGE_KEY\<close>.
\<close>

theorem mutation_persisted:
  assumes "write_ok e" and "pays (step e ev s) \<noteq> pays s"
  shows "storage (step e ev s) STORAGE_KEY = Some (json_stringify (payments_json (pays (step e ev s))))"
  using assms by (rule step_persists)

theorem mutation_persisted_witness:
  "storage (step \<lparr>today = 0, write_ok = True\<rparr> ConfirmOk
      ((boot Map.empty [\<lparr>pid = 1, amount = Fin 10, date = ''''\<rparr>])\<lparr>confirm_open := True, confirm_ok := Some DeleteAll\<rparr>))
      STORAGE_KEY = Some ''[]''"
proof -
  let ?s = "(boot Map.empty [\<lparr>pid = 1, amount = Fin 10, date = ''''\<rparr>])\<lparr>confirm_open := True, confirm_ok := Some DeleteAll\<rparr>"
  have "pays (step \<lparr>today = 0, write_ok = True\<rparr> ConfirmOk ?s) = []"
    by (simp add: handler_defs)
  with mutation_persisted [of "\<lparr>today = 0, write_ok = True\<rparr>" ConfirmOk ?s] show ?thesis
    by (simp add: boot_def payments_json_def)
qed

text \<open>
  C18. A failed write (\<open>localStorage.setItem\<close> throws inside \<open>save\<close>, whose
  \<open>catch\<close> swallows the exception) leaves the store as it was, and the handler goes on
  as if the write had succeeded: every event leads to the same state as with a working
  store, except that the store is unchanged, so the page and the store then disagree until
  the next successful write.
\<close>

theorem failed_write_keeps_storage:
  assumes "\<not> write_ok e"
  shows "step e ev s = (step (e\<lparr>write_ok := True\<rparr>) ev s)\<lparr>storage := storage s\<rparr>"
  using assms by (rule step_failed_write)

theorem failed_write_keeps_storage_witness:
  "storage (step \<lparr>today = 0, write_ok = False\<rparr> ConfirmOk
      ((boot Map.empty [\<lparr>pid = 1, amount = Fin 10, date = ''''\<rparr>])\<lparr>confirm_open := True, confirm_ok := Some DeleteAll\<rparr>)) = Map.empty \<and>
   pays (step \<lparr>today = 0, write_ok = False\<rparr> ConfirmOk
      ((boot Map.empty [\<lparr>pid = 1, amount = Fin 10, date = ''''\<rparr>])\<lparr>confirm_open := True, confirm_ok := Some DeleteAll\<rparr>)) = []"
proof -
  let ?s = "(boot Map.empty [\<lparr>pid = 1, amount = Fin 10, date = ''''\<rparr>])\<lparr>confirm_open := True, confirm_ok := Some DeleteAll\<rparr>"
  have "pays (step \<lparr>today = 0, write_ok = True\<rparr> ConfirmOk ?s) = []"
    by (simp add: handler_defs)
  with failed_write_keeps_storage [of "\<lparr>today = 0, write_ok = False\<rparr>" ConfirmOk ?s] show ?thesis
    by (simp add: boot_def)
qed

text \<open>
  C19. Clicking the edit button of the \<open>i\<close>-th card opens the edit sheet on the
  \<open>i\<close>-th payment: its id, its amount as \<open>String(amount)\<close>, its date for display and
  the first ten characters of its date in the picker.
\<close>

theorem edit_button_opens_payment:
  assumes "app_inv s" and "i < length (pays s)"
  shows "edit_open (step e (EditButton i) s) \<and>
         edit_id (step e (EditButton i) s) = int_str (pid (pays s ! i)) \<and>
         edit_amount (step e (EditButton i) s) = num_to_string (amount (pays s ! i)) \<and>
         edit_date (step e (EditButton i) s) = formatDisplayDate (date (pays s ! i)) \<and>
         edit_date_native (step e (EditButton i) s) = date_field (date (pays s ! i))"
  using assms by (simp add: step_EditButton openEditSheet_def closeDropdown_def date_field_def)

theorem edit_button_opens_payment_witness:
  "edit_open (step \<lparr>today = 0, write_ok = True\<rparr> (EditButton 0)
      (boot Map.empty [\<lparr>pid = 1, amount = Fin 10, date = ''2024-01-15''\<rparr>])) \<and>
   edit_date_native (step \<lparr>today = 0, write_ok = True\<rparr> (EditButton 0)
      (boot Map.empty [\<lparr>pid = 1, amount = Fin 10, date = ''2024-01-15''\<rparr>])) = ''2024-01-15''"
proof -
  have "app_inv (boot Map.empty [\<lparr>pid = 1, amount = Fin 10, date = ''2024-01-15''\<rparr>])"
    by (rule app_inv_boot) (simp add: wf_payments_def)
  from edit_button_opens_payment [OF this, of 0] show ?thesis by (simp add: boot_def date_field_def)
qed

text \<open>
  C20. Submitting the add sheet with an amount that is empty after trimming changes
  nothing: no payment, no write, the sheet stays open.
\<close>

theorem add_empty_amount_rejected:
  assumes "js_trim (input_amount s) = []"
  shows "step e SubmitAdd s = s"
  using assms by (simp add: step_def submitAdd_def)

theorem add_empty_amount_rejected_witness:
  "step \<lparr>today = 0, write_ok = True\<rparr> SubmitAdd ((boot Map.empty [])\<lparr>input_amount := '' ''\<rparr>) =
   (boot Map.empty [])\<lparr>input_amount := '' ''\<rparr>"
proof -
  have "js_trim '' '' = []" by code_simp
  then show ?thesis by (intro add_empty_amount_rejected) simp
qed

text \<open>
  C21. The edit sheet has no such guard: opening it on the \<open>i\<close>-th payment, emptying the
  amount field and saving sets that payment's amount to \<open>0\<close> (\<open>Number('') || 0\<close>).
\<close>

theorem edit_empty_amount_zeroes:
  assumes "app_inv s" and "i < length (pays s)" and "js_trim v = []"
  shows "amount (pays (run [(e1, EditButton i), (e2, TypeEditAmount v), (e3, SubmitEdit)] s) ! i) = Fin 0"
proof -
  let ?k = "pid (pays s ! i)"
  have "payments_update (pays s) (int_str ?k) [] dt =
          Some (map (\<lambda>q. if pid q = ?k then q\<lparr>amount := Fin 0, date := date_field dt\<rparr> else q) (pays s))"
    for dt using payments_update_key [OF app_inv_distinct [OF assms(1)] _ id_matches_int_str, of ?k "[]" dt] assms(2)
    by (simp add: js_Number_Nil)
  with assms show ?thesis
    by (simp add: step_EditButton)
      (simp add: openEditSheet_def closeDropdown_def step_def submitEdit_def
        updatePayment_def closeEditSheet_def Let_def)
qed

theorem edit_empty_amount_zeroes_witness:
  "amount (pays (run [(\<lparr>today = 0, write_ok = True\<rparr>, EditButton 0), (\<lparr>today = 0, write_ok = True\<rparr>, TypeEditAmount []),
      (\<lparr>today = 0, write_ok = True\<rparr>, SubmitEdit)]
      (boot Map.empty [\<lparr>pid = 1, amount = Fin 10, date = ''''\<rparr>])) ! 0) = Fin 0"
proof -
  have "app_inv (boot Map.empty [\<lparr>pid = 1, amount = Fin 10, date = ''''\<rparr>])"
    by (rule app_inv_boot) (simp add: wf_payments_def)
  from edit_empty_amount_zeroes [OF this, of 0 "[]"] show ?thesis by (simp add: boot_def js_trim_def)
qed

text \<open>
  C25. Reload after a written change: when a step changed the payments and the write to
  \<open>localStorage\<close> succeeded, starting the page again from the resulting store
  (\<open>loadPayments()\<close> followed by the initial render, app.js lines 361-362) boots with exactly
  the payments the step left, provided each of them is storable (an integer id below
  \<open>10^17\<close> and an amount that prints exactly).
\<close>

theorem reload_restores_payments:
  assumes "write_ok e" and "pays (step e ev s) \<noteq> pays s"
    and "\<forall>p \<in> set (pays (step e ev s)). storable p"
  shows "start (storage (step e ev s)) = Some (boot (storage (step e ev s)) (pays (step e ev s)))"
  using step_persists [OF assms(1,2)] load_stringify [OF assms(3)] by (simp add: start_def)

theorem reload_restores_payments_witness:
  "start (storage (step \<lparr>today = 0, write_ok = True\<rparr> ConfirmOk
      ((boot Map.empty [\<lparr>pid = 1, amount = Fin 10, date = ''''\<rparr>])\<lparr>confirm_open := True, confirm_ok := Some DeleteAll\<rparr>)))
   = Some (boot [STORAGE_KEY \<mapsto> ''[]''] [])"
proof -
  let ?e = "\<lparr>today = 0, write_ok = True\<rparr>"
  let ?s = "(boot Map.empty [\<lparr>pid = 1, amount = Fin 10, date = ''''\<rparr>])\<lparr>confirm_open := True, confirm_ok := Some DeleteAll\<rparr>"
  have p: "pays (step ?e ConfirmOk ?s) = []"
    by (simp add: handler_defs)
  have st: "storage (step ?e ConfirmOk ?s) = [STORAGE_KEY \<mapsto> ''[]'']"
    by (simp add: handler_defs boot_def Let_def save_render_def save_def payments_json_def)
  from reload_restores_payments [of ?e ConfirmOk ?s] p st show ?thesis
    by (simp add: boot_def)
qed

text \<open>
  C27. After \<open>clearAll\<close>, the next \<open>addPayment\<close> assigns id 1, and the collection holds
  only that payment.
\<close>

theorem clear_all_then_add_id_one:
  "pays (addPayment e a d (clearAll e s)) = [\<lparr>pid = 1, amount = or_zero (js_Number a), date = date_field d\<rparr>]"
  by (simp add: addPayment_def clearAll_def save_render_def payments_add_def new_payment_def)

text \<open>
  C28. Emptying the collection is always possible: from every state, the menu item
  "Delete all" followed by the confirmation's OK button leaves no payment (with nothing to
  confirm for an empty array, whatever is pending then runs on the empty array).
\<close>

theorem clear_all_reachable:
  "pays (run [(e, NavDeleteAll), (e', ConfirmOk)] s) = []"
  by (simp add: handler_defs Let_def pays_run_pending_Nil split: option.split)
text \<open>
  C29. The stored entry follows the array: from a state whose entry holds
  \<open>JSON.stringify(payments)\<close> (as after a load of what \<open>save\<close> wrote), every run of events
  whose writes succeed ends in a state whose entry holds \<open>JSON.stringify\<close> of its own
  array, whichever handlers ran and whether or not they changed it.
\<close>

theorem storage_tracks_payments:
  assumes "\<forall>x \<in> set evs. write_ok (fst x)"
    and "storage s STORAGE_KEY = Some (json_stringify (payments_json (pays s)))"
  shows "storage (run evs s) STORAGE_KEY = Some (json_stringify (payments_json (pays (run evs s))))"
  using assms
proof (induction evs s rule: run.induct)
  case (1 s)
  then show ?case by simp
next
  case (2 e ev evs s)
  then show ?case by (simp add: step_storage_sync)
qed

theorem storage_tracks_payments_witness:
  "storage (run [(\<lparr>today = 0, write_ok = True\<rparr>, NavDeleteAll), (\<lparr>today = 0, write_ok = True\<rparr>, ConfirmOk)]
      (boot [STORAGE_KEY \<mapsto> json_stringify (payments_json [\<lparr>pid = 1, amount = Fin 10, date = ''''\<rparr>])]
            [\<lparr>pid = 1, amount = Fin 10, date = ''''\<rparr>])) STORAGE_KEY = Some ''[]''"
proof -
  let ?e = "\<lparr>today = 0, write_ok = True\<rparr>"
  let ?s = "boot [STORAGE_KEY \<mapsto> json_stringify (payments_json [\<lparr>pid = 1, amount = Fin 10, date = ''''\<rparr>])]
            [\<lparr>pid = 1, amount = Fin 10, date = ''''\<rparr>]"
  have p: "pays (run [(?e, NavDeleteAll), (?e, ConfirmOk)] ?s) = []"
    by (simp add: handler_defs Let_def boot_def)
  have "storage ?s STORAGE_KEY = Some (json_stringify (payments_json (pays ?s)))"
    by (simp add: boot_def)
  with storage_tracks_payments [of "[(?e, NavDeleteAll), (?e, ConfirmOk)]" ?s] p show ?thesis
    by (simp add: payments_json_def)
qed

end
