(* ===== verification/Spec2Isabelle.thy ===== *)
theory Spec2Isabelle
  imports App
begin

text \<open>
  \<^bold>\<open>Verification development of the loan payment tracker\<close> (\<open>src/www/app.js\<close>).

  \<^bold>\<open>The program.\<close> A single-page expense tracker: one global array \<open>payments\<close> of
  objects \<open>{id, amount, date}\<close>, loaded from \<open>localStorage\<close> at start
  (\<open>load\<close>), changed by \<open>addPayment\<close>, \<open>updatePayment\<close>, \<open>deletePayment\<close> and
  \<open>clearAll\<close>, each of which then persists the array (\<open>save\<close>) and re-renders
  (\<open>render\<close>: \<open>getTotals\<close> and the list view). The form handlers normalise a typed or
  picked date through \<open>parseLocalDate\<close> and \<open>toYMD\<close>; \<open>formatDate\<close> shows dates as
  \<open>DD/MM/YYYY\<close>. The remaining code opens and closes sheets, modals and the menu.

  \<^bold>\<open>Theories.\<close>
  \<^item> \<open>Prelude\<close>: the named collections \<open>js_eval\<close> and \<open>inv_rules\<close>; generic list
    lemmas: \<open>modify_first\<close> (JavaScript's \<open>find\<close> followed by an in-place
    assignment), filtering by a key with distinct keys, association lists built by
    mapping a key field (for the ledger refinement).
  \<^item> \<open>JsValue\<close>: the ECMAScript built-ins the code applies to input, modelled from the
    language specification (they are not code of the repository): Number values
    (\<open>jsnum\<close>: \<open>NaN\<close>, exact finite values, the infinities), \<open>+\<close>, \<open>x || 0\<close>
    (\<open>or_zero\<close>), \<open>String.prototype.trim\<close>, \<open>Number(s)\<close> (\<open>js_Number\<close>,
    StringToNumber with decimal, exponent, \<open>0x/0o/0b\<close> and \<open>Infinity\<close> literals),
    \<open>parseInt(s, 10)\<close> (\<open>parseInt10\<close>, \<open>None\<close> for \<open>NaN\<close>), \<open>String(i)\<close> of
    an integer (\<open>int_str\<close>) and \<open>padStart\<close>. Main lemma: \<open>js_Number (int_str i) =
    Fin i\<close>, which is why the id a button carries as text finds its payment again.
  \<^item> \<open>Payments\<close>: the record \<open>payment\<close> (field \<open>pid\<close> is the source's \<open>id\<close>),
    \<open>nextId\<close> (lines 99--102), \<open>getTotals\<close> (104--107), and the array transformations of
    \<open>addPayment\<close> (\<open>payments_add\<close>, 181--187), \<open>updatePayment\<close>
    (\<open>payments_update\<close>, 192--196, \<open>None\<close> for the early return when no id matches)
    and \<open>deletePayment\<close> (\<open>payments_delete\<close>, 201--202). The invariant
    \<open>wf_payments\<close> (distinct ids, no \<open>NaN\<close> amount, dates of at most ten characters)
    holds for the empty array and is preserved by each operation (\<open>inv_rules\<close>).
    Claims C1--C6: fresh ids, update and delete on present and absent ids, and the
    totals as the in-order sum of the truthy amounts (a statement that holds whatever the
    rounding of \<open>+\<close>). The abstract ledger \<open>ledger_of\<close> maps each id to its amount and
    date; C26 proves
    that the three operations refine insertion of a fresh key, overwriting or failing,
    and removal of a key on that map.
  \<^item> \<open>Dates\<close>: ECMAScript's day arithmetic (\<open>DayFromYear\<close>, \<open>MakeDay\<close>, the
    year, month and date getters; \<open>year_from_day\<close> reduces the day by whole 400-year
    cycles and then scans at most 399 years with \<open>scan_up\<close>, so it is total and
    executable), the \<open>Date\<close> object (\<open>jsdate\<close>, \<open>new_Date\<close> with the 0--99 year
    shift and \<open>TimeClip\<close>), \<open>parseLocalDate\<close> (61--74), \<open>toYMD\<close> (87--93),
    \<open>formatDate\<close> (76--81), \<open>getTodayYMD\<close> (95--97), the submit handlers' date
    normalisation \<open>form_date\<close> (292--299) and \<open>syncDateToDisplay\<close> (171--179).
    Claims C7--C13: canonical and day-first inputs, the parse/print round trip on valid
    calendar dates, rejection of short input, that the regular-expression fallback of the
    submit handlers is unreachable, and that a rejected date is shown raw and stored empty.
    The lemmas on the calendar (\<open>year_from_day_bounds\<close>, \<open>getters_make_day\<close>) check
    the model of \<open>Date\<close> against ECMAScript's definitions.
  \<^item> \<open>Json\<close>: \<open>JSON.stringify\<close> (ECMAScript built-in, modelled from the language
    specification): \<open>Number::toString\<close> (\<open>num_to_string\<close>: shortest digit string of at
    most 17 significant digits, then the fixed or exponential layout), \<open>QuoteJSONString\<close>,
    and the encoding of a payment as \<open>{"id":..,"amount":..,"date":..}\<close>; and
    \<open>JSON.parse\<close> (built-in called by \<open>load\<close>): white space, the number lexer
    (\<open>lex_number\<close>), string literals with every escape (\<open>parse_str\<close>), and values,
    arrays and objects by the mutually recursive \<open>parse_value\<close>, \<open>parse_elems\<close>,
    \<open>parse_members\<close>, which take fuel and return \<open>PFuel\<close> when it runs out.
    Lemma \<open>parse_value_total\<close>: fuel \<open>2 * length s + 1\<close> never runs out, since
    every call either consumes a character or is one of at most two calls per character
    (measure \<open>consumes\<close>); \<open>json_parse\<close> uses that fuel, so it is total.
  \<^item> \<open>Json_Roundtrip\<close>: \<open>JSON.parse\<close> inverts \<open>JSON.stringify\<close>, the lemmas the
    storage round trip rests on: a number whose shortest form has at most 17 significant
    digits (\<open>exact_num\<close>) reads back from \<open>Number::toString\<close> as itself
    (\<open>num_to_string_parts\<close>), and every JSON value built of such numbers, strings,
    arrays and objects parses back from its serialisation (\<open>json_parse_stringify\<close>).
  \<^item> \<open>Storage\<close>: \<open>localStorage\<close> as a map from keys to strings, \<open>STORAGE_KEY\<close> and
    \<open>save\<close> (55--59), whose write may fail and is then ignored; \<open>load\<close> (46--53)
    returns \<open>Loaded ps\<close> or, for a parsed value that is not an array of payment
    objects, \<open>Unrecognised j\<close> (the page then holds \<open>j\<close> itself). C22: saving a
    collection of storable payments (integer ids below \<open>10^17\<close>, exactly printable
    amounts) and loading it gives it back; C23: a missing, empty or malformed entry loads
    as the empty array; C24: other parsed JSON is installed as it is.
  \<^item> \<open>App\<close>: the whole page as a record \<open>app\<close> (the array, the store, the rendered
    summary and cards, the open flags of sheets, modals and menu, the confirmation's message
    and OK handler, the form fields) and one function per handler: the four mutation
    handlers (181--211) each end in \<open>save_render\<close>; \<open>render\<close> (213--248) yields a
    \<open>card\<close> per payment; the UI functions of 115--169 and 250--253; each listener of
    255--359 is a case of \<open>handle\<close> on the \<open>event\<close> datatype; \<open>step\<close> adds the
    document's click listener (278--282), which closes the menu after clicks outside it;
    \<open>run\<close> folds \<open>step\<close> over a list of (environment, event) pairs, the environment
    giving today's day and whether the write succeeds. \<open>boot\<close> is the page after
    \<open>load(); render();\<close> for a loaded array, and \<open>start\<close> composes it with
    \<open>load\<close> on the store. The invariant \<open>app_inv\<close> is proved for every handler
    (\<open>inv_rules\<close>) and lifted to runs. Claims C14--C21: the invariant of reachable states,
    no removal without confirmation, the confirmed delete, persistence after every change,
    the failed write (the store is unchanged and the handler otherwise runs as with a
    working store), the edit sheet's contents, the add form's guard and the edit form's
    missing one. C25 composes the components: after a written change, reloading the page
    restores the payments; C29 shows by induction over runs that, while writes succeed,
    the stored entry always holds the serialised array. C27 shows that the first id after
    \<open>clearAll\<close> is 1, and C28 that "Delete all" followed by OK empties the collection
    from every state.

  \<^bold>\<open>Modelling choices.\<close> Finite Numbers are exact rationals: the binary64 rounding of
  sums and of \<open>Number(s)\<close> is not modelled (the spec excludes currency-correct
  arithmetic); \<open>Number::toString\<close> therefore prints the exact value when it has at most
  17 significant digits. C6 therefore fixes the sequence of additions rather than their
  value, and the other claims pass amounts through (\<open>Number(s) || 0\<close>, storage) without
  adding them. In the program \<open>0.1 + 0.2\<close> shows as \<open>0.30000000000000004\<close>, in the model
  as \<open>0.3\<close>. Strings are byte strings; white space is the ASCII part of
  ECMAScript's white space. Ids are integers, so \<open>filter(Number.isFinite)\<close> in
  \<open>nextId\<close> keeps every id. The local time zone is UTC: a \<open>Date\<close> is a day number.
  The markup (\<open>index.html\<close> is not part of the repository) is assumed to give the form
  fields no default value and to place the menu items inside the dropdown.

  \<^bold>\<open>Bounds and fuel.\<close> \<open>year_from_day\<close> scans at most 399 years within a
  400-year cycle, and \<open>month_from_day\<close> at most 11 months, both by \<open>scan_up\<close>
  whose termination measure is the distance to the bound. The JSON parser's fuel
  \<open>2 * length s + 1\<close> is enough (\<open>parse_value_total\<close>), so \<open>json_parse\<close> never reports fuel
  exhaustion. \<open>TimeClip\<close> is the bound \<open>|t| \<le> 10^8\<close> days of \<open>new_Date\<close>.

  \<^bold>\<open>Not modelled.\<close> \<open>focus()\<close>, \<open>showPicker()\<close> and \<open>preventDefault()\<close> change no
  state the program reads; the SVG icons of the cards are constants. A stored value
  that \<open>load\<close> installs but that is not an array of payment objects (\<open>Unrecognised\<close>)
  is not followed further: \<open>start\<close> returns \<open>None\<close> for it. Objects whose keys are
  not exactly \<open>id\<close>, \<open>amount\<close>, \<open>date\<close> in that order, which \<open>save\<close> never
  writes, count as unrecognised too.
\<close>

end
